theory Spec2Isabelle
  imports Complex_Main
begin

section \<open>Data model (src/contexts/GanttContext.tsx)\<close>

text \<open>
  A \<open>Date\<close> is a calendar date, represented by its day number.
\<close>

type_synonym Date = int

text \<open>
  Modelled from the spec: \<open>addDays\<close> and \<open>differenceInDays\<close> are imported from the
  date-fns library, which is not under src/. On calendar dates \<open>addDays\<close> moves the
  date by a number of days (\<open>anchor.start + daysDelta\<close>) and \<open>differenceInDays\<close> is
  the whole-day difference of its first argument from its second (\<open>end - start\<close>).
\<close>

definition addDays :: "Date \<Rightarrow> int \<Rightarrow> Date" where
  "addDays date amount = date + amount"

definition differenceInDays :: "Date \<Rightarrow> Date \<Rightarrow> int" where
  "differenceInDays dateLeft dateRight = dateLeft - dateRight"

text \<open>\<open>calculateTaskDuration\<close> (src/contexts/GanttContext.tsx).\<close>

definition calculateTaskDuration :: "Date \<Rightarrow> Date \<Rightarrow> int" where
  "calculateTaskDuration startDate endDate = differenceInDays endDate startDate + 1"

datatype Priority = Low | Medium | High

datatype Status = NotStarted | InProgress | Completed | OnHold

datatype ViewMode = Day | Week | Month

datatype Handle = Start | End

datatype Position = Above | Below | Subtask

text \<open>
  \<open>interface Task\<close>. An optional property (\<open>isExpanded?\<close>) is an \<open>option\<close>, with
  \<open>None\<close> for a property that is absent or undefined. HOL records cannot be recursive,
  so the \<open>children\<close> property lives in the datatype and all other properties in the
  record \<open>TaskFields\<close>; \<open>task.id\<close> is \<open>id' (attrs task)\<close>.
\<close>

record TaskFields =
  id' :: string
  name :: string
  startDate :: Date
  endDate :: Date
  progress :: int
  color :: string
  isExpanded :: "bool option"
  parentId :: "string option"
  order :: int
  dependencies :: "string list option"
  resources :: "string list option"
  notes' :: "string option"
  priority :: "Priority option"
  status :: "Status option"

datatype Task = Task (attrs: TaskFields) (children: "Task list option")

text \<open>
  \<open>Partial<Task>\<close>: every property of \<open>Task\<close>, each of them optional. \<open>None\<close> is a key
  that the object literal does not have; \<open>Some v\<close> is a key with the value \<open>v\<close> (for an
  optional property of \<open>Task\<close> the value may itself be undefined, \<open>Some None\<close>).
\<close>

record PartialTask =
  u_id :: "string option"
  u_name :: "string option"
  u_startDate :: "Date option"
  u_endDate :: "Date option"
  u_progress :: "int option"
  u_color :: "string option"
  u_isExpanded :: "bool option option"
  u_children :: "Task list option option"
  u_parentId :: "string option option"
  u_order :: "int option"
  u_dependencies :: "string list option option"
  u_resources :: "string list option option"
  u_notes :: "string option option"
  u_priority :: "Priority option option"
  u_status :: "Status option option"

definition noUpdates :: PartialTask where
  "noUpdates = \<lparr> u_id = None, u_name = None, u_startDate = None, u_endDate = None,
     u_progress = None, u_color = None, u_isExpanded = None, u_children = None,
     u_parentId = None, u_order = None, u_dependencies = None, u_resources = None,
     u_notes = None, u_priority = None, u_status = None \<rparr>"

text \<open>One key of the spread \<open>{ ...task, ...updates }\<close>: the update's value if it has the key.\<close>

fun spreadKey :: "'a \<Rightarrow> 'a option \<Rightarrow> 'a" where
  "spreadKey old None = old"
| "spreadKey old (Some v) = v"

definition spread :: "Task \<Rightarrow> PartialTask \<Rightarrow> Task" where
  "spread task updates =
     Task \<lparr> id' = spreadKey (id' (attrs task)) (u_id updates),
            name = spreadKey (name (attrs task)) (u_name updates),
            startDate = spreadKey (startDate (attrs task)) (u_startDate updates),
            endDate = spreadKey (endDate (attrs task)) (u_endDate updates),
            progress = spreadKey (progress (attrs task)) (u_progress updates),
            color = spreadKey (color (attrs task)) (u_color updates),
            isExpanded = spreadKey (isExpanded (attrs task)) (u_isExpanded updates),
            parentId = spreadKey (parentId (attrs task)) (u_parentId updates),
            order = spreadKey (order (attrs task)) (u_order updates),
            dependencies = spreadKey (dependencies (attrs task)) (u_dependencies updates),
            resources = spreadKey (resources (attrs task)) (u_resources updates),
            notes' = spreadKey (notes' (attrs task)) (u_notes updates),
            priority = spreadKey (priority (attrs task)) (u_priority updates),
            status = spreadKey (status (attrs task)) (u_status updates) \<rparr>
          (spreadKey (children task) (u_children updates))"

section \<open>Tree helpers, as the values they return\<close>

text \<open>
  The helpers are modelled first by the forest they return, for an argument forest that
  is a tree (no array or object occurs twice in it). What they do to the objects and
  arrays of the argument is modelled separately, on a store, further down.
\<close>

lemma children_size [termination_simp]:
  "children task = Some cs \<Longrightarrow> size_list size cs < size task"
  by (cases task) simp

text \<open>
  \<open>updateTaskRecursively\<close>: \<open>tasks.map\<close> with a callback; the recursion below applies
  the callback to the elements in order.
\<close>

fun updateTaskRecursively :: "Task list \<Rightarrow> string \<Rightarrow> PartialTask \<Rightarrow> Task list" where
  "updateTaskRecursively [] taskId updates = []"
| "updateTaskRecursively (task # rest) taskId updates =
     (if id' (attrs task) = taskId then spread task updates
      else (case children task of
              Some cs \<Rightarrow> Task (attrs task) (Some (updateTaskRecursively cs taskId updates))
            | None \<Rightarrow> task))
     # updateTaskRecursively rest taskId updates"

text \<open>\<open>findTaskById\<close>: the \<open>for\<close> loop with its two early returns.\<close>

fun findTaskById :: "Task list \<Rightarrow> string \<Rightarrow> Task option" where
  "findTaskById [] taskId = None"
| "findTaskById (task # rest) taskId =
     (if id' (attrs task) = taskId then Some task
      else (case children task of
              Some cs \<Rightarrow>
                (case findTaskById cs taskId of
                   Some found \<Rightarrow> Some found
                 | None \<Rightarrow> findTaskById rest taskId)
            | None \<Rightarrow> findTaskById rest taskId))"

text \<open>
  \<open>addTaskAtPosition\<close>, as the forest it returns for an argument in which no array
  that holds the target is reached twice; that is so when no array is reached twice
  at all, and when at most one node has the target id. The inner \<open>insertTask\<close> walks \<open>taskList\<close> by index; at the first element
  whose id is the target it changes the list and returns, at any other element it
  replaces the element by a copy whose \<open>children\<close> is the result of the recursive call
  and goes on with the next index. \<open>targetTask.children || []\<close> is the empty list when
  the target has no \<open>children\<close>.

  Below the root array the code works in place, on the arrays of its argument. An
  array that holds the target and is reached twice (the \<open>children\<close> array that
  \<open>handleDuplicateTask\<close> gives to a task and to its copy) is therefore written once
  for each time it is reached, and the forest returned then has the new task twice.
  The writes are in \<open>addTaskAtPositionS\<close> further down, and \<open>addTaskAtPositionS_refines\<close>
  proves that on a store in which no array is reached twice the forest it returns is
  the one of \<open>addTaskAtPosition\<close>. The properties proved of \<open>addTaskAtPosition\<close> are
  stated for a target id that exactly one node has.
\<close>

fun insertTask :: "Task \<Rightarrow> Position \<Rightarrow> string \<Rightarrow> Task list \<Rightarrow> Task list" where
  "insertTask newTask position targetTaskId [] = []"
| "insertTask newTask position targetTaskId (targetTask # rest) =
     (if id' (attrs targetTask) = targetTaskId then
        (case position of
           Subtask \<Rightarrow>
             Task ((attrs targetTask)\<lparr>isExpanded := Some True\<rparr>)
               (Some ((case children targetTask of Some cs \<Rightarrow> cs | None \<Rightarrow> [])
                      @ [Task ((attrs newTask)\<lparr>parentId := Some targetTaskId\<rparr>)
                           (children newTask)]))
             # rest
         | Above \<Rightarrow> newTask # targetTask # rest
         | Below \<Rightarrow> targetTask # newTask # rest)
      else
        (case children targetTask of
           Some cs \<Rightarrow>
             Task (attrs targetTask) (Some (insertTask newTask position targetTaskId cs))
         | None \<Rightarrow> targetTask)
        # insertTask newTask position targetTaskId rest)"

definition addTaskAtPosition :: "Task list \<Rightarrow> Task \<Rightarrow> Position \<Rightarrow> string \<Rightarrow> Task list" where
  "addTaskAtPosition tasks newTask position targetTaskId =
     insertTask newTask position targetTaskId tasks"

text \<open>
  \<open>deleteTaskRecursively\<close>: \<open>tasks.filter\<close> with a callback that drops the element with
  the id and, for an element it keeps, sets \<open>task.children\<close> to the result of the
  recursive call.
\<close>

fun deleteTaskRecursively :: "Task list \<Rightarrow> string \<Rightarrow> Task list" where
  "deleteTaskRecursively [] taskId = []"
| "deleteTaskRecursively (task # rest) taskId =
     (if id' (attrs task) = taskId then deleteTaskRecursively rest taskId
      else
        (case children task of
           Some cs \<Rightarrow> Task (attrs task) (Some (deleteTaskRecursively cs taskId))
         | None \<Rightarrow> task)
        # deleteTaskRecursively rest taskId)"

section \<open>Observations on a forest\<close>

text \<open>
  The ids, the own properties and the number of the nodes of a forest, in the order of
  the helpers' traversal (a node, then its children, then its later siblings), and the
  sibling list reached from the root list by a path of indices: the empty path is the
  root list, and \<open>i # path\<close> goes on in the \<open>children\<close> of the element at index \<open>i\<close>.
\<close>

fun taskIds :: "Task list \<Rightarrow> string list" where
  "taskIds [] = []"
| "taskIds (task # rest) =
     id' (attrs task) # (case children task of Some cs \<Rightarrow> taskIds cs | None \<Rightarrow> [])
       @ taskIds rest"

fun taskAttrs :: "Task list \<Rightarrow> TaskFields list" where
  "taskAttrs [] = []"
| "taskAttrs (task # rest) =
     attrs task # (case children task of Some cs \<Rightarrow> taskAttrs cs | None \<Rightarrow> [])
       @ taskAttrs rest"

fun nodeCount :: "Task list \<Rightarrow> nat" where
  "nodeCount [] = 0"
| "nodeCount (task # rest) =
     1 + (case children task of Some cs \<Rightarrow> nodeCount cs | None \<Rightarrow> 0) + nodeCount rest"


section \<open>The reducer\<close>

text \<open>\<open>interface GanttState\<close>.\<close>

record GanttState =
  tasks :: "Task list"
  selectedTaskId :: "string option"
  viewMode :: ViewMode
  isMaximized :: bool
  zoomLevel :: real
  draggedTask :: "Task option"
  isResizing :: bool
  resizeHandle :: "Handle option"

text \<open>
  \<open>type GanttAction\<close>. The payload of \<open>RESIZE_TASK\<close> declares both dates optional; every
  dispatch in the repository passes both, and the action is modelled with both present.
\<close>

datatype GanttAction =
    SET_TASKS "Task list"
  | ADD_TASK Task
  | ADD_TASK_AT_POSITION Task Position string
  | UPDATE_TASK string PartialTask
  | DELETE_TASK string
  | SELECT_TASK "string option"
  | TOGGLE_TASK_EXPANSION string
  | SET_VIEW_MODE ViewMode
  | TOGGLE_MAXIMIZE
  | SET_ZOOM_LEVEL real
  | START_DRAG Task
  | END_DRAG
  | REORDER_TASKS int int
  | MOVE_TASK_TO_PARENT string "string option" int
  | START_RESIZE string Handle
  | END_RESIZE
  | RESIZE_TASK string Date Date

text \<open>
  \<open>Array.prototype.splice(start, deleteCount, ...items)\<close> on integer arguments: a
  negative \<open>start\<close> counts from the end and is clamped to 0, a \<open>start\<close> beyond the length
  is clamped to the length, and \<open>deleteCount\<close> is clamped to what is left after the
  start. The result is the array of the removed elements and the array after the call.
\<close>

definition spliceStart :: "nat \<Rightarrow> int \<Rightarrow> nat" where
  "spliceStart len start =
     (if start < 0 then nat (max (int len + start) 0) else nat (min start (int len)))"

definition splice :: "'a list \<Rightarrow> int \<Rightarrow> nat \<Rightarrow> 'a list \<Rightarrow> 'a list \<times> 'a list" where
  "splice xs start deleteCount items =
     (let actualStart = spliceStart (length xs) start;
          actualDeleteCount = min deleteCount (length xs - actualStart)
      in (take actualDeleteCount (drop actualStart xs),
          take actualStart xs @ items @ drop (actualStart + actualDeleteCount) xs))"

text \<open>
  The array built by the \<open>REORDER_TASKS\<close> case. \<open>const [removed] = ...\<close> is undefined
  when the first splice removed nothing, so an entry of the array is a task (\<open>Some\<close>) or
  undefined (\<open>None\<close>).
\<close>

definition reorderTasks :: "Task list \<Rightarrow> int \<Rightarrow> int \<Rightarrow> Task option list" where
  "reorderTasks stateTasks sourceIndex destinationIndex =
     (let reorderedTasks = map Some stateTasks;
          (removedElements, afterRemove) = splice reorderedTasks sourceIndex 1 [];
          removed = (case removedElements of [] \<Rightarrow> None | r # _ \<Rightarrow> r)
      in snd (splice afterRemove destinationIndex 0 [removed]))"

text \<open>
  What the reducer returns: a state, or, when the reordered array holds an undefined
  entry, the object \<open>{ ...state, tasks: reorderedTasks }\<close>, which is not a
  \<open>GanttState\<close>.
\<close>

datatype Reduced =
    State GanttState
  | StateWithUndefined GanttState "Task option list"

fun allTasks :: "Task option list \<Rightarrow> Task list option" where
  "allTasks [] = Some []"
| "allTasks (None # es) = None"
| "allTasks (Some t # es) = (case allTasks es of None \<Rightarrow> None | Some ts \<Rightarrow> Some (t # ts))"

fun ganttReducer :: "GanttState \<Rightarrow> GanttAction \<Rightarrow> Reduced" where
  "ganttReducer state (SET_TASKS payload) = State (state\<lparr>tasks := payload\<rparr>)"
| "ganttReducer state (ADD_TASK payload) = State (state\<lparr>tasks := tasks state @ [payload]\<rparr>)"
| "ganttReducer state (ADD_TASK_AT_POSITION task position targetTaskId) =
     State (state\<lparr>tasks := addTaskAtPosition (tasks state) task position targetTaskId\<rparr>)"
| "ganttReducer state (UPDATE_TASK taskId updates) =
     State (state\<lparr>tasks := updateTaskRecursively (tasks state) taskId updates\<rparr>)"
| "ganttReducer state (DELETE_TASK payload) =
     State (state\<lparr>tasks := deleteTaskRecursively (tasks state) payload\<rparr>)"
| "ganttReducer state (SELECT_TASK payload) = State (state\<lparr>selectedTaskId := payload\<rparr>)"
| "ganttReducer state (TOGGLE_TASK_EXPANSION payload) =
     State (state\<lparr>tasks := updateTaskRecursively (tasks state) payload
       (noUpdates\<lparr>u_isExpanded := Some (Some (\<not>
          (case findTaskById (tasks state) payload of
             None \<Rightarrow> False
           | Some found \<Rightarrow> (case isExpanded (attrs found) of None \<Rightarrow> False | Some b \<Rightarrow> b))))\<rparr>)\<rparr>)"
| "ganttReducer state (SET_VIEW_MODE payload) = State (state\<lparr>viewMode := payload\<rparr>)"
| "ganttReducer state TOGGLE_MAXIMIZE = State (state\<lparr>isMaximized := \<not> isMaximized state\<rparr>)"
| "ganttReducer state (SET_ZOOM_LEVEL payload) =
     State (state\<lparr>zoomLevel := max 0.5 (min 3 payload)\<rparr>)"
| "ganttReducer state (START_DRAG payload) = State (state\<lparr>draggedTask := Some payload\<rparr>)"
| "ganttReducer state END_DRAG = State (state\<lparr>draggedTask := None\<rparr>)"
| "ganttReducer state (REORDER_TASKS sourceIndex destinationIndex) =
     (let reorderedTasks = reorderTasks (tasks state) sourceIndex destinationIndex
      in case allTasks reorderedTasks of
           Some ts \<Rightarrow> State (state\<lparr>tasks := ts\<rparr>)
         | None \<Rightarrow> StateWithUndefined state reorderedTasks)"
| "ganttReducer state (START_RESIZE taskId handle) =
     State (state\<lparr>isResizing := True, resizeHandle := Some handle,
                   selectedTaskId := Some taskId\<rparr>)"
| "ganttReducer state END_RESIZE = State (state\<lparr>isResizing := False, resizeHandle := None\<rparr>)"
| "ganttReducer state (RESIZE_TASK taskId newStartDate newEndDate) =
     State (state\<lparr>tasks := updateTaskRecursively (tasks state) taskId
       (noUpdates\<lparr>u_startDate := Some newStartDate, u_endDate := Some newEndDate\<rparr>)\<rparr>)"
| "ganttReducer state _ = State state"

section \<open>Timeline geometry and the resize session\<close>

text \<open>
  \<open>handleResizeMouseMove\<close> (src/components/DraggableTaskRow.tsx, and the same function
  in GanttChart.tsx). The component's \<open>isResizing\<close>, \<open>resizeHandle\<close> and
  \<open>originalTask.current\<close> are arguments, \<open>daysDelta\<close> is the rounded pointer distance
  in days, and the result is the action it dispatches, if any.
\<close>

definition handleResizeMouseMove ::
  "bool \<Rightarrow> Handle option \<Rightarrow> Task option \<Rightarrow> string \<Rightarrow> int \<Rightarrow> GanttAction option" where
  "handleResizeMouseMove resizing handle originalTask taskId daysDelta =
     (case (resizing, originalTask, handle) of
        (True, Some original, Some h) \<Rightarrow>
          if daysDelta \<noteq> 0 then
            (let newStartDate = startDate (attrs original);
                 newEndDate = endDate (attrs original)
             in if h = Start then
                  (let newStartDate = addDays (startDate (attrs original)) daysDelta;
                       newStartDate =
                         (if newStartDate \<ge> endDate (attrs original)
                          then addDays (endDate (attrs original)) (- 1)
                          else newStartDate)
                   in Some (RESIZE_TASK taskId newStartDate newEndDate))
                else
                  (let newEndDate = addDays (endDate (attrs original)) daysDelta;
                       newEndDate =
                         (if newEndDate \<le> startDate (attrs original)
                          then addDays (startDate (attrs original)) 1
                          else newEndDate)
                   in Some (RESIZE_TASK taskId newStartDate newEndDate)))
          else None
      | _ \<Rightarrow> None)"

text \<open>
  The resize session of one row. \<open>isResizing\<close> and \<open>resizeHandle\<close> are state of the
  component (\<open>useState(false)\<close>, \<open>useState(null)\<close>): a handler reads the values of the
  render that made it. \<open>originalTask\<close> is a ref, read when the handler runs.
  \<open>handleResizeMouseMove\<close> is made anew when \<open>isResizing\<close> or \<open>resizeHandle\<close> changes,
  but \<open>handleResizeStart\<close> only when \<open>task\<close> or \<open>dispatch\<close> changes
  (\<open>useCallback(..., [task, dispatch])\<close>), and it registers the
  \<open>handleResizeMouseMove\<close> of its own render. So the row keeps, beside its state,
  the two values that the render of its \<open>handleResizeStart\<close> had (\<open>startRender\<close>),
  and the listener registered for \<open>mousemove\<close> is the pair of values that its closure
  reads.
\<close>

record ResizeRow =
  isResizing' :: bool
  resizeHandle' :: "Handle option"
  originalTask :: "Task option"
  startRender :: "bool \<times> Handle option"
  mouseMoveListener :: "(bool \<times> Handle option) option"

text \<open>The row when it is mounted.\<close>

definition mountRow :: ResizeRow where
  "mountRow =
     \<lparr> isResizing' = False, resizeHandle' = None, originalTask = None,
       startRender = (False, None), mouseMoveListener = None \<rparr>"

text \<open>A render with a new \<open>task\<close> object: \<open>handleResizeStart\<close> is made anew.\<close>

definition renderWithNewTask :: "ResizeRow \<Rightarrow> ResizeRow" where
  "renderWithNewTask row = row\<lparr>startRender := (isResizing' row, resizeHandle' row)\<rparr>"

text \<open>\<open>handleResizeStart\<close>: the row after it, and the action it dispatches.\<close>

definition handleResizeStart :: "ResizeRow \<Rightarrow> Task \<Rightarrow> Handle \<Rightarrow> ResizeRow \<times> GanttAction" where
  "handleResizeStart row task handle =
     (row\<lparr>isResizing' := True, resizeHandle' := Some handle, originalTask := Some task,
          mouseMoveListener := Some (startRender row)\<rparr>,
      START_RESIZE (id' (attrs task)) handle)"

text \<open>A \<open>mousemove\<close> on the document: the registered listener runs, if there is one.\<close>

definition mouseMove :: "ResizeRow \<Rightarrow> string \<Rightarrow> int \<Rightarrow> GanttAction option" where
  "mouseMove row taskId daysDelta =
     (case mouseMoveListener row of
        None \<Rightarrow> None
      | Some (resizing, handle) \<Rightarrow>
          handleResizeMouseMove resizing handle (originalTask row) taskId daysDelta)"

text \<open>\<open>handleResizeMouseUp\<close>: the row after it, and the action it dispatches.\<close>

definition handleResizeMouseUp :: "ResizeRow \<Rightarrow> ResizeRow \<times> GanttAction" where
  "handleResizeMouseUp row =
     (row\<lparr>isResizing' := False, resizeHandle' := None, originalTask := None,
          mouseMoveListener := None\<rparr>,
      END_RESIZE)"

section \<open>The initial state\<close>

text \<open>
  \<open>initialState\<close>, with \<open>new Date(2025, 6, 13)\<close> (13 July 2025) as the day number
  20282 counted from 1 January 1970, and the other dates likewise.
\<close>

definition task2 :: Task where
  "task2 =
     Task \<lparr> id' = ''2'', name = ''Requirements Analysis'', startDate = 20284, endDate = 20291,
            progress = 100, color = ''#22c55e'', isExpanded = None, parentId = Some ''1'',
            order = 0, dependencies = None, resources = None, notes' = None,
            priority = Some High, status = Some Completed \<rparr>
          None"

definition task3 :: Task where
  "task3 =
     Task \<lparr> id' = ''3'', name = ''System Design'', startDate = 20292, endDate = 20299,
            progress = 75, color = ''#3b82f6'', isExpanded = None, parentId = Some ''1'',
            order = 1, dependencies = None, resources = None, notes' = None,
            priority = Some High, status = Some InProgress \<rparr>
          None"

definition task4 :: Task where
  "task4 =
     Task \<lparr> id' = ''4'', name = ''UI/UX Design'', startDate = 20301, endDate = 20308,
            progress = 50, color = ''#a855f7'', isExpanded = None, parentId = Some ''1'',
            order = 2, dependencies = None, resources = None, notes' = None,
            priority = Some Medium, status = Some InProgress \<rparr>
          None"

definition task1 :: Task where
  "task1 =
     Task \<lparr> id' = ''1'', name = ''Project Planning'', startDate = 20282, endDate = 20310,
            progress = 25, color = ''#6366f1'', isExpanded = Some True, parentId = None,
            order = 0, dependencies = None, resources = None, notes' = None,
            priority = Some High, status = Some InProgress \<rparr>
          (Some [task2, task3, task4])"

definition task5 :: Task where
  "task5 =
     Task \<lparr> id' = ''5'', name = ''Project Milestone'', startDate = 20309, endDate = 20309,
            progress = 0, color = ''#000000'', isExpanded = None, parentId = None,
            order = 1, dependencies = None, resources = None, notes' = None,
            priority = Some High, status = Some NotStarted \<rparr>
          None"

definition task7 :: Task where
  "task7 =
     Task \<lparr> id' = ''7'', name = ''Backend Development'', startDate = 20286, endDate = 20315,
            progress = 45, color = ''#f59e0b'', isExpanded = None, parentId = Some ''6'',
            order = 0, dependencies = None, resources = None, notes' = None,
            priority = Some High, status = Some InProgress \<rparr>
          None"

definition task8 :: Task where
  "task8 =
     Task \<lparr> id' = ''8'', name = ''Frontend Development'', startDate = 20289, endDate = 20318,
            progress = 20, color = ''#06b6d4'', isExpanded = None, parentId = Some ''6'',
            order = 1, dependencies = None, resources = None, notes' = None,
            priority = Some High, status = Some InProgress \<rparr>
          None"

definition task6 :: Task where
  "task6 =
     Task \<lparr> id' = ''6'', name = ''Development Phase'', startDate = 20283, endDate = 20320,
            progress = 30, color = ''#ef4444'', isExpanded = Some False, parentId = None,
            order = 2, dependencies = None, resources = None, notes' = None,
            priority = Some High, status = Some InProgress \<rparr>
          (Some [task7, task8])"

definition initialState :: GanttState where
  "initialState =
     \<lparr> tasks = [task1, task5, task6], selectedTaskId = None, viewMode = Day,
       isMaximized = False, zoomLevel = 1, draggedTask = None, isResizing = False,
       resizeHandle = None \<rparr>"

text \<open>A task from day 10 to day 12, for the resize scenario.\<close>

definition day10to12 :: Task where
  "day10to12 = Task ((attrs task5)\<lparr>startDate := 10, endDate := 12\<rparr>) None"

text \<open>
  The copy of task 1 that \<open>handleDuplicateTask\<close> builds
  (\<open>{ ...contextMenuTask, id, name, order }\<close>: the \<open>children\<close> of the copy are the
  \<open>children\<close> of task 1), and the root list after it is added.
\<close>

definition task1Copy :: Task where
  "task1Copy =
     Task ((attrs task1)\<lparr>id' := ''task-10'', name := ''Project Planning (Copy)'',
                          order := 3\<rparr>)
       (children task1)"

definition duplicatedTasks :: "Task list" where
  "duplicatedTasks = tasks initialState @ [task1Copy]"

section \<open>The deleting and the inserting helper on a store\<close>

text \<open>
  Objects and arrays live at addresses. A task object holds its own properties and,
  when it has a \<open>children\<close> property, the address of that array; an array holds the
  addresses of its elements.
\<close>

record TaskObject =
  props :: TaskFields
  childrenRef :: "nat option"

record Store =
  objects :: "nat \<rightharpoonup> TaskObject"
  arrays :: "nat \<rightharpoonup> nat list"
  nextAddr :: nat

definition allocObject :: "Store \<Rightarrow> TaskObject \<Rightarrow> Store \<times> nat" where
  "allocObject st obj =
     (st\<lparr>objects := (objects st)(nextAddr st \<mapsto> obj), nextAddr := Suc (nextAddr st)\<rparr>,
      nextAddr st)"

definition allocArray :: "Store \<Rightarrow> nat list \<Rightarrow> Store \<times> nat" where
  "allocArray st elems =
     (st\<lparr>arrays := (arrays st)(nextAddr st \<mapsto> elems), nextAddr := Suc (nextAddr st)\<rparr>,
      nextAddr st)"

text \<open>
  The forest that an array of the store holds. A store can hold a cycle, so the reading
  takes fuel, one unit for each level of nesting, and \<open>None\<close> is a reading that ran
  out of fuel or met an address with nothing at it.
\<close>

fun readForest :: "nat \<Rightarrow> Store \<Rightarrow> nat \<Rightarrow> Task list option"
  and readTasks :: "nat \<Rightarrow> Store \<Rightarrow> nat list \<Rightarrow> Task list option" where
  "readForest 0 st arr = None"
| "readForest (Suc fuel) st arr =
     (case arrays st arr of None \<Rightarrow> None | Some elems \<Rightarrow> readTasks fuel st elems)"
| "readTasks fuel st [] = Some []"
| "readTasks fuel st (r # rs) =
     (case objects st r of
        None \<Rightarrow> None
      | Some obj \<Rightarrow>
          (case (case childrenRef obj of
                   None \<Rightarrow> Some None
                 | Some c \<Rightarrow> map_option Some (readForest fuel st c)) of
             None \<Rightarrow> None
           | Some cs \<Rightarrow> map_option ((#) (Task (props obj) cs)) (readTasks fuel st rs)))"

text \<open>
  \<open>deleteTaskRecursively\<close> on the store. \<open>filter\<close> builds a new array of the elements
  its callback keeps; the callback's \<open>task.children = ...\<close> writes the \<open>children\<close>
  property of the object that the argument array holds.
\<close>

fun deleteTaskRecursivelyS :: "nat \<Rightarrow> Store \<Rightarrow> nat \<Rightarrow> string \<Rightarrow> (Store \<times> nat) option"
  and filterCallbackS :: "nat \<Rightarrow> Store \<Rightarrow> nat list \<Rightarrow> string \<Rightarrow> (Store \<times> nat list) option" where
  "deleteTaskRecursivelyS 0 st tasksRef taskId = None"
| "deleteTaskRecursivelyS (Suc fuel) st tasksRef taskId =
     (case arrays st tasksRef of
        None \<Rightarrow> None
      | Some elems \<Rightarrow>
          (case filterCallbackS fuel st elems taskId of
             None \<Rightarrow> None
           | Some (st', kept) \<Rightarrow> Some (allocArray st' kept)))"
| "filterCallbackS fuel st [] taskId = Some (st, [])"
| "filterCallbackS fuel st (taskRef # rest) taskId =
     (case objects st taskRef of
        None \<Rightarrow> None
      | Some task \<Rightarrow>
          if id' (props task) = taskId then filterCallbackS fuel st rest taskId
          else
            (case childrenRef task of
               None \<Rightarrow>
                 (case filterCallbackS fuel st rest taskId of
                    None \<Rightarrow> None
                  | Some (st', kept) \<Rightarrow> Some (st', taskRef # kept))
             | Some c \<Rightarrow>
                 (case deleteTaskRecursivelyS fuel st c taskId of
                    None \<Rightarrow> None
                  | Some (st1, c') \<Rightarrow>
                      (case objects st1 taskRef of
                         None \<Rightarrow> None
                       | Some current \<Rightarrow>
                           (case filterCallbackS fuel
                                   (st1\<lparr>objects := (objects st1)
                                      (taskRef \<mapsto> current\<lparr>childrenRef := Some c'\<rparr>)\<rparr>)
                                   rest taskId of
                              None \<Rightarrow> None
                            | Some (st', kept) \<Rightarrow> Some (st', taskRef # kept))))))"

text \<open>
  \<open>addTaskAtPosition\<close> on the store. \<open>[...tasks]\<close> copies the root array only;
  \<open>insertTask\<close> then works on the array it is given: \<open>splice\<close> and
  \<open>taskList[i] = ...\<close> write that array, and the recursive call is given
  \<open>taskList[i].children\<close>, the array of the argument's own object. The loop index is
  \<open>i\<close>; each iteration and each call takes one unit of fuel.
\<close>

fun insertTaskS ::
  "nat \<Rightarrow> Store \<Rightarrow> nat \<Rightarrow> Position \<Rightarrow> string \<Rightarrow> nat \<Rightarrow> nat \<Rightarrow> Store option" where
  "insertTaskS 0 st newTaskRef position targetTaskId taskList i = None"
| "insertTaskS (Suc fuel) st newTaskRef position targetTaskId taskList i =
     (case arrays st taskList of
        None \<Rightarrow> None
      | Some elems \<Rightarrow>
          if i < length elems then
            (case objects st (elems ! i) of
               None \<Rightarrow> None
             | Some targetTask \<Rightarrow>
                 if id' (props targetTask) = targetTaskId then
                   (case position of
                      Subtask \<Rightarrow>
                        (case (objects st newTaskRef,
                               case childrenRef targetTask of
                                 None \<Rightarrow> Some []
                               | Some c \<Rightarrow> arrays st c) of
                           (Some newTask, Some oldChildren) \<Rightarrow>
                             (let (st1, copyRef) = allocObject st
                                    (newTask\<lparr>props := (props newTask)
                                       \<lparr>parentId := Some targetTaskId\<rparr>\<rparr>);
                                  (st2, childrenArr) = allocArray st1 (oldChildren @ [copyRef]);
                                  (st3, updatedTask) = allocObject st2
                                    \<lparr>props = (props targetTask)\<lparr>isExpanded := Some True\<rparr>,
                                      childrenRef = Some childrenArr\<rparr>
                              in Some (st3\<lparr>arrays := (arrays st3)
                                         (taskList \<mapsto> elems[i := updatedTask])\<rparr>))
                         | _ \<Rightarrow> None)
                    | Above \<Rightarrow>
                        Some (st\<lparr>arrays := (arrays st)
                                (taskList \<mapsto> take i elems @ newTaskRef # drop i elems)\<rparr>)
                    | Below \<Rightarrow>
                        Some (st\<lparr>arrays := (arrays st)
                                (taskList \<mapsto> take (Suc i) elems @ newTaskRef
                                   # drop (Suc i) elems)\<rparr>))
                 else
                   (case childrenRef targetTask of
                      None \<Rightarrow>
                        insertTaskS fuel st newTaskRef position targetTaskId taskList (Suc i)
                    | Some c \<Rightarrow>
                        (case insertTaskS fuel st newTaskRef position targetTaskId c 0 of
                           None \<Rightarrow> None
                         | Some st1 \<Rightarrow>
                             (case arrays st1 taskList of
                                None \<Rightarrow> None
                              | Some elems1 \<Rightarrow>
                                  if i < length elems1 then
                                    (case objects st1 (elems1 ! i) of
                                       None \<Rightarrow> None
                                     | Some current \<Rightarrow>
                                         (let (st2, copyRef) = allocObject st1
                                                (current\<lparr>childrenRef := Some c\<rparr>)
                                          in insertTaskS fuel
                                               (st2\<lparr>arrays := (arrays st2)
                                                  (taskList \<mapsto> elems1[i := copyRef])\<rparr>)
                                               newTaskRef position targetTaskId taskList (Suc i)))
                                  else None))))
          else Some st)"

definition addTaskAtPositionS ::
  "nat \<Rightarrow> Store \<Rightarrow> nat \<Rightarrow> nat \<Rightarrow> Position \<Rightarrow> string \<Rightarrow> (Store \<times> nat) option" where
  "addTaskAtPositionS fuel st tasksRef newTaskRef position targetTaskId =
     (case arrays st tasksRef of
        None \<Rightarrow> None
      | Some elems \<Rightarrow>
          (let (st1, newTasks) = allocArray st elems
           in case insertTaskS fuel st1 newTaskRef position targetTaskId newTasks 0 of
                None \<Rightarrow> None
              | Some st' \<Rightarrow> Some (st', newTasks)))"

text \<open>
  The initial forest in a store: the objects of tasks 1 to 8 at the addresses 1 to 8, the
  root array at 10 and the two \<open>children\<close> arrays at 11 and 12; and a new task, as
  \<open>handleSaveTask\<close> builds one, at address 13.
\<close>

definition initialStore :: Store where
  "initialStore =
     \<lparr> objects =
         [1 \<mapsto> \<lparr>props = attrs task1, childrenRef = Some 11\<rparr>,
          2 \<mapsto> \<lparr>props = attrs task2, childrenRef = None\<rparr>,
          3 \<mapsto> \<lparr>props = attrs task3, childrenRef = None\<rparr>,
          4 \<mapsto> \<lparr>props = attrs task4, childrenRef = None\<rparr>,
          5 \<mapsto> \<lparr>props = attrs task5, childrenRef = None\<rparr>,
          6 \<mapsto> \<lparr>props = attrs task6, childrenRef = Some 12\<rparr>,
          7 \<mapsto> \<lparr>props = attrs task7, childrenRef = None\<rparr>,
          8 \<mapsto> \<lparr>props = attrs task8, childrenRef = None\<rparr>],
       arrays = [10 \<mapsto> [1, 5, 6], 11 \<mapsto> [2, 3, 4], 12 \<mapsto> [7, 8]],
       nextAddr = 13 \<rparr>"

definition newTaskA :: Task where
  "newTaskA =
     Task \<lparr> id' = ''task-9'', name = ''New Task'', startDate = 20310, endDate = 20311,
            progress = 0, color = ''#3b82f6'', isExpanded = None, parentId = None,
            order = 3, dependencies = None, resources = None, notes' = None,
            priority = Some Medium, status = Some NotStarted \<rparr>
          None"

definition storeWithNewTask :: Store where
  "storeWithNewTask =
     fst (allocObject initialStore \<lparr>props = attrs newTaskA, childrenRef = None\<rparr>)"

text \<open>
  The store after Duplicate Task on task 1: the copy is the object at address 9, its
  \<open>children\<close> is the array at 11 that task 1 has too, and the new root array is at
  13; the new task is at address 14.
\<close>

definition duplicatedStore :: Store where
  "duplicatedStore =
     \<lparr> objects =
         [1 \<mapsto> \<lparr>props = attrs task1, childrenRef = Some 11\<rparr>,
          2 \<mapsto> \<lparr>props = attrs task2, childrenRef = None\<rparr>,
          3 \<mapsto> \<lparr>props = attrs task3, childrenRef = None\<rparr>,
          4 \<mapsto> \<lparr>props = attrs task4, childrenRef = None\<rparr>,
          5 \<mapsto> \<lparr>props = attrs task5, childrenRef = None\<rparr>,
          6 \<mapsto> \<lparr>props = attrs task6, childrenRef = Some 12\<rparr>,
          7 \<mapsto> \<lparr>props = attrs task7, childrenRef = None\<rparr>,
          8 \<mapsto> \<lparr>props = attrs task8, childrenRef = None\<rparr>,
          9 \<mapsto> \<lparr>props = attrs task1Copy, childrenRef = Some 11\<rparr>,
          14 \<mapsto> \<lparr>props = attrs newTaskA, childrenRef = None\<rparr>],
       arrays =
         [10 \<mapsto> [1, 5, 6], 11 \<mapsto> [2, 3, 4], 12 \<mapsto> [7, 8], 13 \<mapsto> [1, 5, 6, 9]],
       nextAddr = 15 \<rparr>"

text \<open>The forest that a helper on the store returns: the reading of the array it returns.\<close>

definition returnedForest :: "nat \<Rightarrow> (Store \<times> nat) option \<Rightarrow> Task list option" where
  "returnedForest fuel result =
     (case result of None \<Rightarrow> None | Some (st, arr) \<Rightarrow> readForest fuel st arr)"

text \<open>
  A store without shared arrays. In a store every address from \<open>nextAddr\<close> on is free
  (\<open>wfStore\<close>). \<open>forestAt st a T F\<close> says that the array at \<open>a\<close> holds the forest \<open>T\<close>
  and that \<open>F\<close> is the set of the arrays of that forest, none of which is reached
  twice: the array of the children of a node is not among the arrays below it, and the
  arrays of two siblings are apart. \<open>tasksAt\<close> says the same of a list of elements.
\<close>

definition wfStore :: "Store \<Rightarrow> bool" where
  "wfStore st = (\<forall>a. nextAddr st \<le> a \<longrightarrow> objects st a = None \<and> arrays st a = None)"

inductive forestAt :: "Store \<Rightarrow> nat \<Rightarrow> Task list \<Rightarrow> nat set \<Rightarrow> bool"
  and tasksAt :: "Store \<Rightarrow> nat list \<Rightarrow> Task list \<Rightarrow> nat set \<Rightarrow> bool" where
  atArray: "arrays st a = Some es \<Longrightarrow> tasksAt st es T F \<Longrightarrow> a \<notin> F
     \<Longrightarrow> forestAt st a T (insert a F)"
| atNil: "tasksAt st [] [] {}"
| atLeaf: "objects st r = Some obj \<Longrightarrow> childrenRef obj = None \<Longrightarrow> tasksAt st rs ts F
     \<Longrightarrow> tasksAt st (r # rs) (Task (props obj) None # ts) F"
| atNode: "objects st r = Some obj \<Longrightarrow> childrenRef obj = Some c \<Longrightarrow> forestAt st c cs F1
     \<Longrightarrow> tasksAt st rs ts F2 \<Longrightarrow> F1 \<inter> F2 = {}
     \<Longrightarrow> tasksAt st (r # rs) (Task (props obj) (Some cs) # ts) (F1 \<union> F2)"

text \<open>
  The fuel that \<open>insertTaskS\<close> needs for a forest (one unit for an iteration of the
  loop, the calls on the children and on the rest of the list each within what is
  left), and the fuel that \<open>readForest\<close> needs to read it.
\<close>

fun fuelFor :: "Task list \<Rightarrow> nat" where
  "fuelFor [] = 1"
| "fuelFor (task # rest) =
     Suc (max (case children task of Some cs \<Rightarrow> fuelFor cs | None \<Rightarrow> 0) (fuelFor rest))"

fun height :: "Task list \<Rightarrow> nat" where
  "height [] = 0"
| "height (task # rest) =
     max (case children task of Some cs \<Rightarrow> Suc (height cs) | None \<Rightarrow> 0) (height rest)"

text \<open>
  What a run of \<open>insertTaskS\<close> may do to a store: allocate, and write the arrays in
  \<open>W\<close>. The objects and the other arrays that were there stay as they were.
\<close>

definition grows :: "Store \<Rightarrow> Store \<Rightarrow> nat set \<Rightarrow> bool" where
  "grows st st' W =
     (wfStore st' \<and> nextAddr st \<le> nextAddr st'
      \<and> (\<forall>r<nextAddr st. objects st' r = objects st r)
      \<and> (\<forall>b<nextAddr st. b \<notin> W \<longrightarrow> arrays st' b = arrays st b))"

section \<open>Facts about the tree helpers\<close>

lemmas task_defs =
  task1_def task2_def task3_def task4_def task5_def task6_def task7_def task8_def

lemma rebuild: "children task = Some cs \<Longrightarrow> Task (attrs task) (Some cs) = task"
  by (cases task) simp

lemma update_miss: "X \<notin> set (taskIds T) \<Longrightarrow> updateTaskRecursively T X u = T"
  by (induction T rule: taskIds.induct) (auto simp: rebuild split: option.splits)

lemma delete_miss: "X \<notin> set (taskIds T) \<Longrightarrow> deleteTaskRecursively T X = T"
  by (induction T rule: taskIds.induct) (auto simp: rebuild split: option.splits)


lemma find_None_iff: "findTaskById T X = None \<longleftrightarrow> X \<notin> set (taskIds T)"
  by (induction T rule: taskIds.induct) (auto split: option.splits)

lemma find_None_notin: "findTaskById T X = None \<Longrightarrow> X \<notin> set (taskIds T)"
  by (simp add: find_None_iff)

lemma find_in: "findTaskById T X = Some x \<Longrightarrow> X \<in> set (taskIds T)"
  using find_None_iff[of T X] by auto

lemma delete_removes_id: "X \<notin> set (taskIds (deleteTaskRecursively T X))"
  by (induction T rule: taskIds.induct) (auto split: option.splits)

lemma nodeCount_attrs: "nodeCount T = length (taskAttrs T)"
  by (induction T rule: taskIds.induct) (auto split: option.splits)


lemma count_zero_notin: "count_list xs x = 0 \<Longrightarrow> x \<notin> set xs"
  by (simp add: count_list_0_iff)

lemma in_count_pos: "x \<in> set xs \<Longrightarrow> 0 < count_list xs x"
  using count_list_0_iff[of xs x] by auto


text \<open>
  Deleting an id that one node has takes that node's subtree, a block of the traversal,
  out of the forest and keeps the nodes before and after it.
\<close>

lemma delete_block:
  "findTaskById T X = Some x \<Longrightarrow> count_list (taskIds T) X = 1 \<Longrightarrow>
   \<exists>pre post. taskAttrs T = pre @ taskAttrs [x] @ post
      \<and> taskAttrs (deleteTaskRecursively T X) = pre @ post"
proof (induction T X rule: findTaskById.induct)
  case (1 taskId)
  then show ?case by simp
next
  case (2 task rest taskId)
  let ?cs = "case children task of Some cs \<Rightarrow> taskIds cs | None \<Rightarrow> []"
  show ?case
  proof (cases "id' (attrs task) = taskId")
    case True
    with 2 have x: "x = task" by simp
    from True 2 have "count_list ?cs taskId = 0" "count_list (taskIds rest) taskId = 0"
      by auto
    then have "deleteTaskRecursively rest taskId = rest"
      by (simp add: delete_miss count_zero_notin)
    then have "taskAttrs (task # rest) = [] @ taskAttrs [x] @ taskAttrs rest
        \<and> taskAttrs (deleteTaskRecursively (task # rest) taskId) = [] @ taskAttrs rest"
      using True x by simp
    then show ?thesis by blast
  next
    case False
    show ?thesis
    proof (cases "children task")
      case None
      with 2 False obtain pre post where
        "taskAttrs rest = pre @ taskAttrs [x] @ post"
        "taskAttrs (deleteTaskRecursively rest taskId) = pre @ post"
        by auto
      then have "taskAttrs (task # rest) = (attrs task # pre) @ taskAttrs [x] @ post
        \<and> taskAttrs (deleteTaskRecursively (task # rest) taskId) = (attrs task # pre) @ post"
        using None False by simp
      then show ?thesis by blast
    next
      case (Some cs)
      show ?thesis
      proof (cases "findTaskById cs taskId")
        case None
        then have notin: "taskId \<notin> set (taskIds cs)" by (rule find_None_notin)
        then have m: "deleteTaskRecursively cs taskId = cs" by (simp add: delete_miss)
        from 2 False Some None notin obtain pre post where
          "taskAttrs rest = pre @ taskAttrs [x] @ post"
          "taskAttrs (deleteTaskRecursively rest taskId) = pre @ post"
          by auto
        then have "taskAttrs (task # rest) = (attrs task # taskAttrs cs @ pre) @ taskAttrs [x] @ post
          \<and> taskAttrs (deleteTaskRecursively (task # rest) taskId)
              = (attrs task # taskAttrs cs @ pre) @ post"
          using Some False m by simp
        then show ?thesis by blast
      next
        case (Some found)
        with 2 False \<open>children task = Some cs\<close> have fx: "findTaskById cs taskId = Some x" by simp
        have pos: "0 < count_list (taskIds cs) taskId"
          using find_in[OF fx] by (rule in_count_pos)
        from 2 False \<open>children task = Some cs\<close>
        have "count_list (taskIds cs) taskId + count_list (taskIds rest) taskId = 1"
          by simp
        with pos have c: "count_list (taskIds cs) taskId = 1" "count_list (taskIds rest) taskId = 0"
          by auto
        then have m: "deleteTaskRecursively rest taskId = rest"
          by (simp add: delete_miss count_zero_notin)
        from 2 False \<open>children task = Some cs\<close> fx c obtain pre post where
          "taskAttrs cs = pre @ taskAttrs [x] @ post"
          "taskAttrs (deleteTaskRecursively cs taskId) = pre @ post"
          by auto
        then have "taskAttrs (task # rest) = (attrs task # pre) @ taskAttrs [x] @ (post @ taskAttrs rest)
          \<and> taskAttrs (deleteTaskRecursively (task # rest) taskId)
              = (attrs task # pre) @ (post @ taskAttrs rest)"
          using \<open>children task = Some cs\<close> False m by simp
        then show ?thesis by blast
      qed
    qed
  qed
qed




text \<open>The two splices of \<open>REORDER_TASKS\<close> for a source index out of range.\<close>

lemma allTasks_None: "None \<in> set es \<Longrightarrow> allTasks es = None"
  by (induction es rule: allTasks.induct) auto

lemma spliceStart_beyond: "int n \<le> k \<Longrightarrow> spliceStart n k = n"
  by (simp add: spliceStart_def)

lemma spliceStart_below: "k < - int n \<Longrightarrow> spliceStart n k = 0"
  by (simp add: spliceStart_def)

lemma spliceStart_le: "spliceStart n k \<le> n"
  by (auto simp: spliceStart_def)

lemma spliceStart_0: "spliceStart 0 k = 0"
  using spliceStart_le[of 0 k] by simp

lemma splice_nothing:
  "spliceStart (length xs) k = length xs \<Longrightarrow> splice xs k d [] = ([], xs)"
  by (simp add: splice_def)

lemma splice_first:
  "spliceStart (Suc (length xs)) k = 0 \<Longrightarrow> splice (x # xs) k 1 [] = ([x], xs)"
  by (simp add: splice_def)

lemma splice_insert:
  "splice xs k 0 [v] =
     ([], take (spliceStart (length xs) k) xs @ v # drop (spliceStart (length xs) k) xs)"
  by (simp add: splice_def Let_def)

lemma reorder_nothing_removed:
  assumes "int (length T) \<le> sourceIndex \<or> T = []"
  shows "reorderTasks T sourceIndex destinationIndex =
     take (spliceStart (length T) destinationIndex) (map Some T) @ None
       # drop (spliceStart (length T) destinationIndex) (map Some T)"
proof -
  have "spliceStart (length (map Some T)) sourceIndex = length (map Some T)"
    using assms by (auto simp: spliceStart_beyond spliceStart_0)
  then have "splice (map Some T) sourceIndex 1 [] = ([], map Some T)"
    by (rule splice_nothing)
  then show ?thesis
    by (simp add: reorderTasks_def splice_insert)
qed

lemma reorder_first_removed:
  assumes "sourceIndex < - int (length (t # rest))"
  shows "reorderTasks (t # rest) sourceIndex destinationIndex =
     map Some (take (spliceStart (length rest) destinationIndex) rest @ t
       # drop (spliceStart (length rest) destinationIndex) rest)"
proof -
  have "spliceStart (Suc (length (map Some rest))) sourceIndex = 0"
    using assms by (simp add: spliceStart_below)
  then have "splice (Some t # map Some rest) sourceIndex 1 [] = ([Some t], map Some rest)"
    by (rule splice_first)
  then show ?thesis
    by (simp add: reorderTasks_def splice_insert take_map drop_map)
qed

text \<open>
  What \<open>handleResizeMouseMove\<close> computes: with an anchor whose start is before its end,
  every action it returns is a \<open>RESIZE_TASK\<close> whose start is before its end, and past
  its guard the start handle stops 1 day before the anchor end and the end handle 1
  day after the anchor start.
\<close>

lemma handler_clamp:
  assumes "startDate (attrs original) < endDate (attrs original)"
  shows "(\<forall>resizing handle daysDelta action.
            handleResizeMouseMove resizing handle (Some original) taskId daysDelta = Some action
            \<longrightarrow> (\<exists>s e. action = RESIZE_TASK taskId s e \<and> s < e))
       \<and> (\<forall>daysDelta. daysDelta \<noteq> 0 \<longrightarrow>
            handleResizeMouseMove True (Some Start) (Some original) taskId daysDelta
              = Some (RESIZE_TASK taskId
                  (if endDate (attrs original) \<le> startDate (attrs original) + daysDelta
                   then endDate (attrs original) - 1
                   else startDate (attrs original) + daysDelta)
                  (endDate (attrs original))))
       \<and> (\<forall>daysDelta. daysDelta \<noteq> 0 \<longrightarrow>
            handleResizeMouseMove True (Some End) (Some original) taskId daysDelta
              = Some (RESIZE_TASK taskId
                  (startDate (attrs original))
                  (if endDate (attrs original) + daysDelta \<le> startDate (attrs original)
                   then startDate (attrs original) + 1
                   else endDate (attrs original) + daysDelta)))
       \<and> (startDate (attrs original) = 10 \<and> endDate (attrs original) = 12 \<longrightarrow>
            handleResizeMouseMove True (Some End) (Some original) taskId (- 5)
              = Some (RESIZE_TASK taskId 10 11))"
  using assms
  by (auto simp: handleResizeMouseMove_def addDays_def Let_def
           split: if_splits option.splits bool.splits)

text \<open>
  Duplicate Task on task 1 of the initial state gives the root list \<open>duplicatedTasks\<close>;
  the store \<open>duplicatedStore\<close> holds it, with one \<open>children\<close> array for task 1 and its
  copy. For a target id that one node has, the helper on that store returns the forest
  of \<open>addTaskAtPosition\<close>.
\<close>

lemma duplicate_task_forest:
  "ganttReducer initialState (ADD_TASK task1Copy)
     = State (initialState\<lparr>tasks := duplicatedTasks\<rparr>)
   \<and> readForest 3 duplicatedStore 13 = Some duplicatedTasks"
  by (rule conjI, simp add: duplicatedTasks_def, code_simp)

lemma shared_store_agrees:
  "returnedForest 3 (addTaskAtPositionS 40 duplicatedStore 13 14 Subtask ''1'')
     = Some (addTaskAtPosition duplicatedTasks newTaskA Subtask ''1'')
   \<and> returnedForest 3 (addTaskAtPositionS 40 duplicatedStore 13 14 Above ''task-10'')
     = Some (addTaskAtPosition duplicatedTasks newTaskA Above ''task-10'')
   \<and> returnedForest 3 (addTaskAtPositionS 40 duplicatedStore 13 14 Below ''7'')
     = Some (addTaskAtPosition duplicatedTasks newTaskA Below ''7'')
   \<and> returnedForest 3 (addTaskAtPositionS 40 duplicatedStore 13 14 Subtask ''5'')
     = Some (addTaskAtPosition duplicatedTasks newTaskA Subtask ''5'')"
  by code_simp

section \<open>The inserting helper on a store without shared arrays\<close>

text \<open>
  One step of \<open>insertTaskS\<close>, for each way through its body.
\<close>

lemma step_exit:
  "arrays st a = Some es \<Longrightarrow> \<not> i < length es \<Longrightarrow> insertTaskS (Suc f) st n p X a i = Some st"
  by simp

lemma step_above:
  "arrays st a = Some es \<Longrightarrow> i < length es \<Longrightarrow> objects st (es ! i) = Some t
   \<Longrightarrow> id' (props t) = X
   \<Longrightarrow> insertTaskS (Suc f) st n Above X a i
       = Some (st\<lparr>arrays := (arrays st)(a \<mapsto> take i es @ n # drop i es)\<rparr>)"
  by simp

lemma step_below:
  "arrays st a = Some es \<Longrightarrow> i < length es \<Longrightarrow> objects st (es ! i) = Some t
   \<Longrightarrow> id' (props t) = X
   \<Longrightarrow> insertTaskS (Suc f) st n Below X a i
       = Some (st\<lparr>arrays := (arrays st)(a \<mapsto> take (Suc i) es @ n # drop (Suc i) es)\<rparr>)"
  by simp

lemma step_leaf:
  "arrays st a = Some es \<Longrightarrow> i < length es \<Longrightarrow> objects st (es ! i) = Some t
   \<Longrightarrow> id' (props t) \<noteq> X \<Longrightarrow> childrenRef t = None
   \<Longrightarrow> insertTaskS (Suc f) st n p X a i = insertTaskS f st n p X a (Suc i)"
  by simp

lemma step_node:
  "arrays st a = Some es \<Longrightarrow> i < length es \<Longrightarrow> objects st (es ! i) = Some t
   \<Longrightarrow> id' (props t) \<noteq> X \<Longrightarrow> childrenRef t = Some c
   \<Longrightarrow> insertTaskS f st n p X c 0 = Some st1
   \<Longrightarrow> arrays st1 a = Some es1 \<Longrightarrow> i < length es1 \<Longrightarrow> objects st1 (es1 ! i) = Some cur
   \<Longrightarrow> insertTaskS (Suc f) st n p X a i
       = insertTaskS f
           ((fst (allocObject st1 (cur\<lparr>childrenRef := Some c\<rparr>)))
              \<lparr>arrays := (arrays (fst (allocObject st1 (cur\<lparr>childrenRef := Some c\<rparr>))))
                 (a \<mapsto> es1[i := nextAddr st1])\<rparr>)
           n p X a (Suc i)"
  by (simp add: allocObject_def)

lemma step_subtask:
  "arrays st a = Some es \<Longrightarrow> i < length es \<Longrightarrow> objects st (es ! i) = Some t
   \<Longrightarrow> id' (props t) = X \<Longrightarrow> objects st n = Some nt
   \<Longrightarrow> (case childrenRef t of None \<Rightarrow> Some [] | Some c \<Rightarrow> arrays st c) = Some old
   \<Longrightarrow> insertTaskS (Suc f) st n Subtask X a i
       = Some \<lparr> objects = (objects st)
                  (nextAddr st \<mapsto> nt\<lparr>props := (props nt)\<lparr>parentId := Some X\<rparr>\<rparr>,
                   Suc (Suc (nextAddr st)) \<mapsto>
                     \<lparr>props = (props t)\<lparr>isExpanded := Some True\<rparr>,
                      childrenRef = Some (Suc (nextAddr st))\<rparr>),
                arrays = (arrays st)
                  (Suc (nextAddr st) \<mapsto> old @ [nextAddr st],
                   a \<mapsto> es[i := Suc (Suc (nextAddr st))]),
                nextAddr = Suc (Suc (Suc (nextAddr st))) \<rparr>"
  by (simp add: allocObject_def allocArray_def)

text \<open>
  The arrays of a forest are allocated ones, and a run that writes none of them
  leaves the forest where it was.
\<close>

inductive_cases tasksAt_NilE: "tasksAt st es [] F"
inductive_cases tasksAt_ConsE: "tasksAt st es (t # ts) F"
inductive_cases forestAt_E: "forestAt st a T F"

lemma wf_array_bound: "wfStore st \<Longrightarrow> arrays st a = Some es \<Longrightarrow> a < nextAddr st"
  unfolding wfStore_def by (metis not_le option.distinct(1))

lemma wf_object_bound: "wfStore st \<Longrightarrow> objects st r = Some obj \<Longrightarrow> r < nextAddr st"
  unfolding wfStore_def by (metis not_le option.distinct(1))

lemma rep_bound:
  "forestAt st a T F \<Longrightarrow> wfStore st \<Longrightarrow> F \<subseteq> {..<nextAddr st}"
  "tasksAt st es T F \<Longrightarrow> wfStore st \<Longrightarrow> F \<subseteq> {..<nextAddr st}"
  by (induction rule: forestAt_tasksAt.inducts) (auto dest: wf_array_bound)

lemma rep_frame:
  "forestAt st a T F \<Longrightarrow> wfStore st \<Longrightarrow> grows st st' W \<Longrightarrow> F \<inter> W = {} \<Longrightarrow> forestAt st' a T F"
  "tasksAt st es T F \<Longrightarrow> wfStore st \<Longrightarrow> grows st st' W \<Longrightarrow> F \<inter> W = {} \<Longrightarrow> tasksAt st' es T F"
proof (induction rule: forestAt_tasksAt.inducts)
  case (atArray st a es T F)
  then have "a < nextAddr st" "a \<notin> W" by (auto dest: wf_array_bound)
  with atArray have "arrays st' a = Some es" by (simp add: grows_def)
  moreover from atArray have "tasksAt st' es T F" by auto
  ultimately show ?case using atArray.hyps(3) by (rule forestAt_tasksAt.atArray)
next
  case (atNil st)
  show ?case by (rule forestAt_tasksAt.atNil)
next
  case (atLeaf st r obj rs ts F)
  then have "objects st' r = Some obj" by (auto simp: grows_def dest: wf_object_bound)
  then show ?case using atLeaf by (auto intro: forestAt_tasksAt.atLeaf)
next
  case (atNode st r obj c cs F1 rs ts F2)
  then have "objects st' r = Some obj" by (auto simp: grows_def dest: wf_object_bound)
  moreover from atNode have "forestAt st' c cs F1" "tasksAt st' rs ts F2" by auto
  ultimately show ?case using atNode.hyps by (auto intro: forestAt_tasksAt.atNode)
qed

lemma rep_append_aux:
  "forestAt st a T F \<Longrightarrow> True"
  "tasksAt st xs T1 F1 \<Longrightarrow> tasksAt st ys T2 F2 \<Longrightarrow> F1 \<inter> F2 = {}
   \<Longrightarrow> tasksAt st (xs @ ys) (T1 @ T2) (F1 \<union> F2)"
proof (induction rule: forestAt_tasksAt.inducts)
  case (atLeaf st r obj rs ts F)
  then show ?case by (auto intro: forestAt_tasksAt.atLeaf)
next
  case (atNode st r obj c cs F1a rs ts F2a)
  then have "tasksAt st (rs @ ys) (ts @ T2) (F2a \<union> F2)" by auto
  with atNode have
    "tasksAt st (r # rs @ ys) (Task (props obj) (Some cs) # ts @ T2) (F1a \<union> (F2a \<union> F2))"
    by (intro forestAt_tasksAt.atNode) auto
  then show ?case by (simp add: Un_assoc)
qed simp_all

lemmas rep_append = rep_append_aux(2)

lemma grows_refl: "wfStore st \<Longrightarrow> grows st st W"
  by (simp add: grows_def)

lemma grows_trans:
  assumes "grows st st1 W1" and "grows st1 st2 W2" and "W1 \<subseteq> W"
    and "W2 \<inter> {..<nextAddr st} \<subseteq> W"
  shows "grows st st2 W"
proof -
  have le: "nextAddr st \<le> nextAddr st1" "nextAddr st1 \<le> nextAddr st2"
    using assms(1,2) by (simp_all add: grows_def)
  have "objects st2 r = objects st r" if "r < nextAddr st" for r
  proof -
    from that le have "r < nextAddr st1" by simp
    then have "objects st2 r = objects st1 r" using assms(2) by (simp add: grows_def)
    also have "\<dots> = objects st r" using assms(1) that by (simp add: grows_def)
    finally show ?thesis .
  qed
  moreover have "arrays st2 b = arrays st b" if "b < nextAddr st" "b \<notin> W" for b
  proof -
    from that le have "b < nextAddr st1" by simp
    moreover from that assms(4) have "b \<notin> W2" by auto
    ultimately have "arrays st2 b = arrays st1 b" using assms(2) by (simp add: grows_def)
    also have "\<dots> = arrays st b" using assms(1,3) that by (auto simp: grows_def)
    finally show ?thesis .
  qed
  ultimately show ?thesis using assms(2) le by (simp add: grows_def)
qed

lemma grows_array_update:
  "wfStore st \<Longrightarrow> arrays st a = Some es
   \<Longrightarrow> grows st (st\<lparr>arrays := (arrays st)(a \<mapsto> es')\<rparr>) (insert a W)"
  by (auto simp: grows_def wfStore_def)

lemma grows_mono: "grows st st' W \<Longrightarrow> W \<subseteq> W' \<Longrightarrow> grows st st' W'"
  by (auto simp: grows_def)


lemma rep_insert_second:
  assumes "tasksAt st (r # rs) (t # rest) F" and n: "objects st n = Some nt" "childrenRef nt = None"
  shows "tasksAt st (r # n # rs) (t # Task (props nt) None # rest) F"
  using assms(1)
proof (rule tasksAt_ConsE)
  fix r' obj rs'
  assume h: "r # rs = r' # rs'" "t = Task (props obj) None" "objects st r' = Some obj"
    "childrenRef obj = None" "tasksAt st rs' rest F"
  have x: "tasksAt st (n # rs') (Task (props nt) None # rest) F"
    by (rule forestAt_tasksAt.atLeaf[OF n h(5)])
  have "tasksAt st (r' # n # rs') (Task (props obj) None # Task (props nt) None # rest) F"
    by (rule forestAt_tasksAt.atLeaf[OF h(3,4) x])
  with h(1,2) show ?thesis by simp
next
  fix r' obj c cs F1 rs' F2
  assume h: "r # rs = r' # rs'" "t = Task (props obj) (Some cs)" "F = F1 \<union> F2"
    "objects st r' = Some obj" "childrenRef obj = Some c" "forestAt st c cs F1"
    "tasksAt st rs' rest F2" "F1 \<inter> F2 = {}"
  have x: "tasksAt st (n # rs') (Task (props nt) None # rest) F2"
    by (rule forestAt_tasksAt.atLeaf[OF n h(7)])
  have
    "tasksAt st (r' # n # rs') (Task (props obj) (Some cs) # Task (props nt) None # rest) (F1 \<union> F2)"
    by (rule forestAt_tasksAt.atNode[OF h(4,5,6) x h(8)])
  with h(1,2,3) show ?thesis by simp
qed


lemma match_above:
  assumes wf: "wfStore st" and n: "objects st n = Some nt" "childrenRef nt = None"
    and rep: "tasksAt st (r # rs) (t # rest) F" and arr: "arrays st a = Some (pre @ r # rs)"
    and a: "a \<notin> F" and obj: "objects st r = Some obj" "id' (props obj) = X"
  shows "\<exists>st' todo' F'.
        insertTaskS (Suc f) st n Above X a (length pre) = Some st'
        \<and> arrays st' a = Some (pre @ todo')
        \<and> tasksAt st' todo' (Task (props nt) None # t # rest) F'
        \<and> F' \<subseteq> F \<union> {nextAddr st ..< nextAddr st'}
        \<and> grows st st' (insert a F)"
proof -
  define st' where "st' = st\<lparr>arrays := (arrays st)(a \<mapsto> pre @ n # r # rs)\<rparr>"
  have sel: "objects st' = objects st" "nextAddr st' = nextAddr st"
    "arrays st' a = Some (pre @ n # r # rs)"
    by (simp_all add: st'_def)
  have i: "length pre < length (pre @ r # rs)" "(pre @ r # rs) ! length pre = r"
    by simp_all
  have run: "insertTaskS (Suc f) st n Above X a (length pre) = Some st'"
    using step_above[OF arr i(1), of obj X f n] obj i(2) by (simp add: st'_def)
  have g: "grows st st' (insert a {})"
    unfolding st'_def using wf arr by (rule grows_array_update)
  have "F \<inter> insert a {} = {}" using a by simp
  with rep wf g have "tasksAt st' (r # rs) (t # rest) F"
    by (rule rep_frame(2))
  with n have r': "tasksAt st' (n # r # rs) (Task (props nt) None # t # rest) F"
    unfolding sel(1)[symmetric] by (rule forestAt_tasksAt.atLeaf)
  have g': "grows st st' (insert a F)"
    using g by (rule grows_mono) simp
  have "F \<subseteq> F \<union> {nextAddr st ..< nextAddr st'}" by simp
  with run sel(3) r' g' show ?thesis by blast
qed


lemma match_below:
  assumes wf: "wfStore st" and n: "objects st n = Some nt" "childrenRef nt = None"
    and rep: "tasksAt st (r # rs) (t # rest) F" and arr: "arrays st a = Some (pre @ r # rs)"
    and a: "a \<notin> F" and obj: "objects st r = Some obj" "id' (props obj) = X"
  shows "\<exists>st' todo' F'.
        insertTaskS (Suc f) st n Below X a (length pre) = Some st'
        \<and> arrays st' a = Some (pre @ todo')
        \<and> tasksAt st' todo' (t # Task (props nt) None # rest) F'
        \<and> F' \<subseteq> F \<union> {nextAddr st ..< nextAddr st'}
        \<and> grows st st' (insert a F)"
proof -
  define st' where "st' = st\<lparr>arrays := (arrays st)(a \<mapsto> pre @ r # n # rs)\<rparr>"
  have sel: "objects st' = objects st" "nextAddr st' = nextAddr st"
    "arrays st' a = Some (pre @ r # n # rs)"
    by (simp_all add: st'_def)
  have i: "length pre < length (pre @ r # rs)" "(pre @ r # rs) ! length pre = r"
    by simp_all
  have run: "insertTaskS (Suc f) st n Below X a (length pre) = Some st'"
    using step_below[OF arr i(1), of obj X f n] obj i(2) by (simp add: st'_def)
  have g: "grows st st' (insert a {})"
    unfolding st'_def using wf arr by (rule grows_array_update)
  have "F \<inter> insert a {} = {}" using a by simp
  with rep wf g have "tasksAt st' (r # rs) (t # rest) F"
    by (rule rep_frame(2))
  then have r': "tasksAt st' (r # n # rs) (t # Task (props nt) None # rest) F"
    using n unfolding sel(1)[symmetric] by (rule rep_insert_second)
  have g': "grows st st' (insert a F)"
    using g by (rule grows_mono) simp
  have "F \<subseteq> F \<union> {nextAddr st ..< nextAddr st'}" by simp
  with run sel(3) r' g' show ?thesis by blast
qed

lemma match_subtask:
  assumes wf: "wfStore st" and n: "objects st n = Some nt" "childrenRef nt = None"
    and rep: "tasksAt st (r # rs) (t # rest) F" and arr: "arrays st a = Some (pre @ r # rs)"
    and a: "a \<notin> F" and obj: "objects st r = Some obj" "id' (props obj) = X"
  shows "\<exists>st' todo' F'.
        insertTaskS (Suc f) st n Subtask X a (length pre) = Some st'
        \<and> arrays st' a = Some (pre @ todo')
        \<and> tasksAt st' todo'
            (Task ((attrs t)\<lparr>isExpanded := Some True\<rparr>)
               (Some ((case children t of Some cs \<Rightarrow> cs | None \<Rightarrow> [])
                      @ [Task ((props nt)\<lparr>parentId := Some X\<rparr>) None]))
             # rest) F'
        \<and> F' \<subseteq> F \<union> {nextAddr st ..< nextAddr st'}
        \<and> grows st st' (insert a F)"
proof -
  define k0 where "k0 = nextAddr st"
  define copy where "copy = nt\<lparr>props := (props nt)\<lparr>parentId := Some X\<rparr>\<rparr>"
  have abound: "a < nextAddr st" using wf arr by (rule wf_array_bound)
  have Fbound: "F \<subseteq> {..<nextAddr st}" using rep wf by (rule rep_bound(2))
  have i: "length pre < length (pre @ r # rs)" "(pre @ r # rs) ! length pre = r"
    by simp_all
  obtain old cs F1 F2 where
    old: "(case childrenRef obj of None \<Rightarrow> Some [] | Some c \<Rightarrow> arrays st c) = Some old"
    and repold: "tasksAt st old cs F1"
    and cs: "(case children t of Some cs \<Rightarrow> cs | None \<Rightarrow> []) = cs"
    and reprs: "tasksAt st rs rest F2"
    and F: "F1 \<union> F2 \<subseteq> F" "F1 \<inter> F2 = {}"
    and t: "attrs t = props obj"
  using rep
  proof (rule tasksAt_ConsE)
    fix r' obj' rs'
    assume h: "r # rs = r' # rs'" "t = Task (props obj') None" "objects st r' = Some obj'"
      "childrenRef obj' = None" "tasksAt st rs' rest F"
    from h(1,3) obj have o: "obj' = obj" by simp
    show ?thesis
    proof (rule that[of "[]" "[]" "{}" F])
      show "(case childrenRef obj of None \<Rightarrow> Some [] | Some c \<Rightarrow> arrays st c) = Some []"
        using h(4) o by simp
      show "tasksAt st [] [] {}" by (rule forestAt_tasksAt.atNil)
      show "(case children t of None \<Rightarrow> [] | Some cs \<Rightarrow> cs) = []" using h(2) by simp
      show "tasksAt st rs rest F" using h(1,5) by simp
      show "attrs t = props obj" using h(2) o by simp
    qed simp_all
  next
    fix r' obj' c cs' G1 rs' G2
    assume h: "r # rs = r' # rs'" "t = Task (props obj') (Some cs')" "F = G1 \<union> G2"
      "objects st r' = Some obj'" "childrenRef obj' = Some c" "forestAt st c cs' G1"
      "tasksAt st rs' rest G2" "G1 \<inter> G2 = {}"
    from h(1,4) obj have o: "obj' = obj" by simp
    from h(6) obtain ces G1' where
      c: "G1 = insert c G1'" "arrays st c = Some ces" "tasksAt st ces cs' G1'" "c \<notin> G1'"
      by (rule forestAt_E)
    show ?thesis
    proof (rule that[of ces cs' G1' G2])
      show "(case childrenRef obj of None \<Rightarrow> Some [] | Some c \<Rightarrow> arrays st c) = Some ces"
        using h(5) o c(2) by simp
      show "tasksAt st ces cs' G1'" by (rule c(3))
      show "(case children t of None \<Rightarrow> [] | Some cs \<Rightarrow> cs) = cs'" using h(2) by simp
      show "tasksAt st rs rest G2" using h(1,7) by simp
      show "G1' \<union> G2 \<subseteq> F" using h(3) c(1) by auto
      show "G1' \<inter> G2 = {}" using h(8) c(1) by auto
      show "attrs t = props obj" using h(2) o by simp
    qed
  qed
  define upd where
    "upd = \<lparr>props = (props obj)\<lparr>isExpanded := Some True\<rparr>, childrenRef = Some (Suc k0)\<rparr>"
  define st' where
    "st' = \<lparr> objects = (objects st)(k0 \<mapsto> copy, Suc (Suc k0) \<mapsto> upd),
              arrays = (arrays st)(Suc k0 \<mapsto> old @ [k0],
                                   a \<mapsto> (pre @ r # rs)[length pre := Suc (Suc k0)]),
              nextAddr = Suc (Suc (Suc k0)) \<rparr>"
  have run: "insertTaskS (Suc f) st n Subtask X a (length pre) = Some st'"
    using step_subtask[OF arr i(1), of obj X n nt old f] obj i(2) n(1) old
    by (simp add: st'_def k0_def copy_def upd_def)
  have sel: "objects st' = (objects st)(k0 \<mapsto> copy, Suc (Suc k0) \<mapsto> upd)"
    "arrays st' = (arrays st)(Suc k0 \<mapsto> old @ [k0], a \<mapsto> pre @ Suc (Suc k0) # rs)"
    "nextAddr st' = Suc (Suc (Suc k0))"
    by (simp_all add: st'_def)
  have wf': "wfStore st'"
    using wf abound unfolding wfStore_def sel k0_def by auto
  have g: "grows st st' (insert a {})"
    unfolding grows_def sel using wf' by (auto simp: k0_def)
  have disj: "F1 \<inter> insert a {} = {}" "F2 \<inter> insert a {} = {}" using a F(1) by auto
  have repold': "tasksAt st' old cs F1" using repold wf g disj(1) by (rule rep_frame(2))
  have reprs': "tasksAt st' rs rest F2" using reprs wf g disj(2) by (rule rep_frame(2))
  have "objects st' k0 = Some copy" by (simp add: sel)
  moreover have "childrenRef copy = None" using n(2) by (simp add: copy_def)
  ultimately have "tasksAt st' [k0] [Task (props copy) None] {}"
    using forestAt_tasksAt.atNil by (rule forestAt_tasksAt.atLeaf)
  with repold' have "tasksAt st' (old @ [k0]) (cs @ [Task (props copy) None]) (F1 \<union> {})"
    by (rule rep_append) simp
  then have ch: "tasksAt st' (old @ [k0]) (cs @ [Task (props copy) None]) F1" by simp
  have "arrays st' (Suc k0) = Some (old @ [k0])"
    using abound by (auto simp: sel k0_def)
  moreover have fresh: "Suc k0 \<notin> F1" "Suc k0 \<notin> F2"
    using Fbound F(1) by (auto simp: k0_def)
  ultimately have chA: "forestAt st' (Suc k0) (cs @ [Task (props copy) None]) (insert (Suc k0) F1)"
    using ch by (intro forestAt_tasksAt.atArray)
  have "objects st' (Suc (Suc k0)) = Some upd" by (simp add: sel)
  moreover have "childrenRef upd = Some (Suc k0)" by (simp add: upd_def)
  moreover have "insert (Suc k0) F1 \<inter> F2 = {}" using F(2) fresh by auto
  ultimately have
    "tasksAt st' (Suc (Suc k0) # rs) (Task (props upd) (Some (cs @ [Task (props copy) None])) # rest)
       (insert (Suc k0) F1 \<union> F2)"
    using chA reprs' by (intro forestAt_tasksAt.atNode)
  then have r': "tasksAt st' (Suc (Suc k0) # rs)
            (Task ((attrs t)\<lparr>isExpanded := Some True\<rparr>)
               (Some ((case children t of Some cs \<Rightarrow> cs | None \<Rightarrow> [])
                      @ [Task ((props nt)\<lparr>parentId := Some X\<rparr>) None]))
             # rest) (insert (Suc k0) F1 \<union> F2)"
    by (simp add: upd_def copy_def cs t)
  have sub: "insert (Suc k0) F1 \<union> F2 \<subseteq> F \<union> {nextAddr st ..< nextAddr st'}"
    using F(1) by (auto simp: sel k0_def)
  have g': "grows st st' (insert a F)" using g by (rule grows_mono) simp
  have "arrays st' a = Some (pre @ Suc (Suc k0) # rs)" by (simp add: sel)
  with run r' sub g' show ?thesis by blast
qed

lemma fresh_disjoint:
  "G \<subseteq> A \<union> {k..<m} \<Longrightarrow> B \<subseteq> {..<k} \<Longrightarrow> A \<inter> B = {} \<Longrightarrow> G \<inter> B = {}"
  for G :: "nat set"
  by (fastforce simp: subset_iff disjoint_iff)

lemma later_disjoint:
  "G1 \<subseteq> {..<q} \<Longrightarrow> G2 \<subseteq> B \<union> {q'..<m} \<Longrightarrow> q \<le> q' \<Longrightarrow> G1 \<inter> B = {}
   \<Longrightarrow> G1 \<inter> G2 = {}"
  for G1 :: "nat set"
  by (fastforce simp: subset_iff disjoint_iff)

lemma insertTaskS_refines:
  "wfStore st \<Longrightarrow> objects st n = Some nt \<Longrightarrow> childrenRef nt = None
   \<Longrightarrow> tasksAt st todo U F \<Longrightarrow> arrays st a = Some (pre @ todo) \<Longrightarrow> a \<notin> F
   \<Longrightarrow> fuelFor U \<le> fuel
   \<Longrightarrow> \<exists>st' todo' F'.
        insertTaskS fuel st n p X a (length pre) = Some st'
        \<and> arrays st' a = Some (pre @ todo')
        \<and> tasksAt st' todo' (insertTask (Task (props nt) None) p X U) F'
        \<and> F' \<subseteq> F \<union> {nextAddr st ..< nextAddr st'}
        \<and> grows st st' (insert a F)"
proof (induction U arbitrary: st todo F pre a fuel rule: taskIds.induct)
  case 1
  from "1.prems"(4) have e: "todo = []" "F = {}" by (auto elim: tasksAt_NilE)
  from "1.prems"(7) obtain f where f: "fuel = Suc f" by (cases fuel) auto
  have "insertTaskS fuel st n p X a (length pre) = Some st"
    unfolding f using "1.prems"(5) by (intro step_exit[where es = "pre @ todo"]) (simp_all add: e)
  moreover have "arrays st a = Some (pre @ [])" using "1.prems"(5) e by simp
  moreover have "tasksAt st [] (insertTask (Task (props nt) None) p X []) {}"
    by (simp add: forestAt_tasksAt.atNil)
  moreover have "grows st st (insert a F)" using "1.prems"(1) by (rule grows_refl)
  ultimately show ?case unfolding e by blast
next
  case (2 task rest)
  note wf = "2.prems"(1) and n = "2.prems"(2,3) and rep = "2.prems"(4)
    and arr = "2.prems"(5) and a = "2.prems"(6)
  let ?new = "Task (props nt) None"
  from "2.prems"(7) obtain f where f: "fuel = Suc f" and frest: "fuelFor rest \<le> f"
    and fch: "(case children task of None \<Rightarrow> 0 | Some cs \<Rightarrow> fuelFor cs) \<le> f"
    by (cases fuel) auto
  have fcs: "fuelFor cs \<le> f" if "children task = Some cs" for cs
    using fch that by simp
  from rep obtain r rs obj where todo: "todo = r # rs" and obj: "objects st r = Some obj"
    and t: "attrs task = props obj"
    by (rule tasksAt_ConsE) auto
  have arr': "arrays st a = Some (pre @ r # rs)" using arr todo by simp
  have rep': "tasksAt st (r # rs) (task # rest) F" using rep todo by simp
  have i: "length pre < length (pre @ r # rs)" "(pre @ r # rs) ! length pre = r"
    by simp_all
  have abound: "a < nextAddr st" using wf arr by (rule wf_array_bound)
  have rbound: "r < nextAddr st" using wf obj by (rule wf_object_bound)
  have nbound: "n < nextAddr st" using wf n(1) by (rule wf_object_bound)
  show ?case
  proof (cases "id' (props obj) = X")
    case True
    then have idt: "id' (attrs task) = X" using t by simp
    show ?thesis
    proof (cases p)
      case Above
      from match_above[OF wf n rep' arr' a obj True, of f]
      show ?thesis unfolding f todo Above using idt by simp
    next
      case Below
      from match_below[OF wf n rep' arr' a obj True, of f]
      show ?thesis unfolding f todo Below using idt by simp
    next
      case Subtask
      from match_subtask[OF wf n rep' arr' a obj True, of f]
      show ?thesis unfolding f todo Subtask using idt by simp
    qed
  next
    case False
    then have idt: "id' (attrs task) \<noteq> X" using t by simp
    from rep' show ?thesis
    proof (rule tasksAt_ConsE)
      fix r' obj' rs'
      assume h: "r # rs = r' # rs'" "task = Task (props obj') None" "objects st r' = Some obj'"
        "childrenRef obj' = None" "tasksAt st rs' rest F"
      from h(1,3) obj have o: "obj' = obj" by simp
      have leaf: "childrenRef obj = None" "children task = None" "tasksAt st rs rest F"
        using h o by simp_all
      have step: "insertTaskS fuel st n p X a (length pre)
          = insertTaskS f st n p X a (Suc (length pre))"
        unfolding f using step_leaf[OF arr' i(1), of obj X f n p] obj i(2) False leaf(1)
        by simp
      have "arrays st a = Some ((pre @ [r]) @ rs)" using arr' by simp
      from "2.IH"(2)[OF wf n leaf(3) this a frest]
      obtain st' todo' F' where
        run: "insertTaskS f st n p X a (length (pre @ [r])) = Some st'"
        and arrs: "arrays st' a = Some ((pre @ [r]) @ todo')"
        and reps: "tasksAt st' todo' (insertTask ?new p X rest) F'"
        and sub: "F' \<subseteq> F \<union> {nextAddr st ..< nextAddr st'}"
        and g: "grows st st' (insert a F)"
        by blast
      have "objects st' r = Some obj" using g rbound obj by (simp add: grows_def)
      then have "tasksAt st' (r # todo') (Task (props obj) None # insertTask ?new p X rest) F'"
        using leaf(1) reps by (rule forestAt_tasksAt.atLeaf)
      moreover have "insertTask ?new p X (task # rest)
          = Task (props obj) None # insertTask ?new p X rest"
        using idt h(2) o by simp
      ultimately have "tasksAt st' (r # todo') (insertTask ?new p X (task # rest)) F'" by simp
      moreover have "insertTaskS fuel st n p X a (length pre) = Some st'"
        using step run by simp
      moreover have "arrays st' a = Some (pre @ r # todo')" using arrs by simp
      ultimately show ?thesis using sub g by blast
    next
      fix r' obj' c cs F1 rs' F2
      assume h: "r # rs = r' # rs'" "task = Task (props obj') (Some cs)" "F = F1 \<union> F2"
        "objects st r' = Some obj'" "childrenRef obj' = Some c" "forestAt st c cs F1"
        "tasksAt st rs' rest F2" "F1 \<inter> F2 = {}"
      from h(1,4) obj have o: "obj' = obj" by simp
      have node: "childrenRef obj = Some c" "children task = Some cs" "tasksAt st rs rest F2"
        using h o by simp_all
      from h(6) obtain ces F1' where
        c: "F1 = insert c F1'" "arrays st c = Some ces" "tasksAt st ces cs F1'" "c \<notin> F1'"
        by (rule forestAt_E)
      have F1b: "F1 \<subseteq> {..<nextAddr st}" using h(6) wf by (rule rep_bound(1))
      have F2b: "F2 \<subseteq> {..<nextAddr st}" using node(3) wf by (rule rep_bound(2))
      have "arrays st c = Some ([] @ ces)" using c(2) by simp
      from "2.IH"(1)[OF node(2) wf n c(3) this c(4) fcs[OF node(2)]]
      obtain st1 ces' G1 where
        run1: "insertTaskS f st n p X c 0 = Some st1"
        and arr1: "arrays st1 c = Some ces'"
        and rep1: "tasksAt st1 ces' (insertTask ?new p X cs) G1"
        and sub1: "G1 \<subseteq> F1' \<union> {nextAddr st ..< nextAddr st1}"
        and g1: "grows st st1 F1"
        unfolding c(1) by auto
      have wf1: "wfStore st1" and le1: "nextAddr st \<le> nextAddr st1"
        using g1 by (simp_all add: grows_def)
      have aF: "a \<notin> F1" "a \<notin> F2" using a h(3) by auto
      have arr1a: "arrays st1 a = Some (pre @ r # rs)"
        using g1 abound aF(1) arr' by (simp add: grows_def)
      have obj1: "objects st1 r = Some obj" using g1 rbound obj by (simp add: grows_def)
      have n1: "objects st1 n = Some nt" using g1 nbound n(1) by (simp add: grows_def)
      define q where "q = nextAddr st1"
      define cur where "cur = obj\<lparr>childrenRef := Some c\<rparr>"
      define st2 where
        "st2 = (fst (allocObject st1 cur))
                 \<lparr>arrays := (arrays (fst (allocObject st1 cur)))
                     (a \<mapsto> (pre @ r # rs)[length pre := nextAddr st1])\<rparr>"
      have sel2: "objects st2 = (objects st1)(q \<mapsto> cur)"
        "arrays st2 = (arrays st1)(a \<mapsto> pre @ q # rs)" "nextAddr st2 = Suc q"
        by (simp_all add: st2_def allocObject_def q_def)
      have step: "insertTaskS fuel st n p X a (length pre)
          = insertTaskS f st2 n p X a (Suc (length pre))"
        unfolding f st2_def cur_def
        using step_node[OF arr' i(1), of obj X c f n p st1 "pre @ r # rs" obj]
          obj i False node(1) run1 arr1a obj1
        by simp
      have a1: "a < nextAddr st1" using abound le1 by simp
      have wf2: "wfStore st2"
        using wf1 a1 unfolding wfStore_def sel2 q_def by auto
      have g12: "grows st1 st2 (insert a {})"
        unfolding grows_def sel2 using wf2 by (auto simp: q_def)
      have n2: "objects st2 n = Some nt"
        using n1 nbound le1 by (auto simp: sel2 q_def)
      have "F2 \<inter> F1 = {}" using h(8) by auto
      with node(3) wf g1 have rep1r: "tasksAt st1 rs rest F2"
        by (rule rep_frame(2))
      have "F2 \<inter> insert a {} = {}" using aF(2) by simp
      with rep1r wf1 g12 have rep2: "tasksAt st2 rs rest F2"
        by (rule rep_frame(2))
      have arr2: "arrays st2 a = Some ((pre @ [q]) @ rs)" by (simp add: sel2)
      from "2.IH"(2)[OF wf2 n2 n(2) rep2 arr2 aF(2) frest]
      obtain st' todo' G2 where
        run2: "insertTaskS f st2 n p X a (length (pre @ [q])) = Some st'"
        and arrs: "arrays st' a = Some ((pre @ [q]) @ todo')"
        and reps: "tasksAt st' todo' (insertTask ?new p X rest) G2"
        and sub2: "G2 \<subseteq> F2 \<union> {nextAddr st2 ..< nextAddr st'}"
        and g2: "grows st2 st' (insert a F2)"
        by blast
      have le2: "nextAddr st2 \<le> nextAddr st'" using g2 by (simp add: grows_def)
      have G1b: "G1 \<subseteq> {..<q}" using rep1 wf1 unfolding q_def by (rule rep_bound(2))
      have cq: "c < nextAddr st" using F1b c(1) by auto
      have cG1: "c \<notin> G1" using sub1 c(4) cq by auto
      have chA1: "forestAt st1 c (insertTask ?new p X cs) (insert c G1)"
        using arr1 rep1 cG1 by (rule forestAt_tasksAt.atArray)
      have d1: "insert c G1 \<inter> insert a {} = {}"
        using aF(1) c(1) sub1 abound by auto
      have chA2: "forestAt st2 c (insertTask ?new p X cs) (insert c G1)"
        using chA1 wf1 g12 d1 by (rule rep_frame(1))
      have F1'F2: "F1' \<inter> F2 = {}" "c \<notin> F2" using h(8) c(1) by auto
      have G1F2: "G1 \<inter> F2 = {}" using sub1 F2b F1'F2(1) by (rule fresh_disjoint)
      have d2: "insert c G1 \<inter> insert a F2 = {}"
        using d1 G1F2 F1'F2(2) by auto
      have chA: "forestAt st' c (insertTask ?new p X cs) (insert c G1)"
        using chA2 wf2 g2 d2 by (rule rep_frame(1))
      have oq: "objects st' q = Some cur"
        using g2 by (simp add: grows_def sel2)
      have cc: "childrenRef cur = Some c" by (simp add: cur_def)
      have dG: "insert c G1 \<inter> G2 = {}"
      proof -
        have x1: "insert c G1 \<subseteq> {..<q}" using G1b cq le1 by (auto simp: q_def)
        have x2: "G2 \<subseteq> F2 \<union> {Suc q..<nextAddr st'}" using sub2 by (simp add: sel2)
        have x3: "insert c G1 \<inter> F2 = {}" using G1F2 F1'F2(2) by auto
        show ?thesis by (rule later_disjoint[OF x1 x2 _ x3]) simp
      qed
      have
        "tasksAt st' (q # todo')
           (Task (props cur) (Some (insertTask ?new p X cs)) # insertTask ?new p X rest)
           (insert c G1 \<union> G2)"
        by (rule forestAt_tasksAt.atNode[OF oq cc chA reps dG])
      moreover have "insertTask ?new p X (task # rest)
          = Task (props cur) (Some (insertTask ?new p X cs)) # insertTask ?new p X rest"
        using idt h(2) o by (simp add: cur_def)
      ultimately have final: "tasksAt st' (q # todo') (insertTask ?new p X (task # rest))
          (insert c G1 \<union> G2)"
        by simp
      have run: "insertTaskS fuel st n p X a (length pre) = Some st'"
        using step run2 by simp
      have arrf: "arrays st' a = Some (pre @ q # todo')" using arrs by simp
      have sub: "insert c G1 \<union> G2 \<subseteq> F \<union> {nextAddr st ..< nextAddr st'}"
        using sub1 sub2 c(1) h(3) le1 le2 by (auto simp: sel2 q_def)
      have "grows st st2 (insert a F)"
        using g1 g12 by (rule grows_trans) (auto simp: h(3))
      then have "grows st st' (insert a F)"
        using g2 by (rule grows_trans) (auto simp: h(3))
      with run arrf final sub show ?thesis by blast
    qed
  qed
qed

lemma rep_read:
  "forestAt st a T F \<Longrightarrow> height T < m \<Longrightarrow> readForest m st a = Some T"
  "tasksAt st es T F \<Longrightarrow> height T \<le> m \<Longrightarrow> readTasks m st es = Some T"
proof (induction arbitrary: m and m rule: forestAt_tasksAt.inducts)
  case (atArray st a es T F)
  from atArray.prems obtain k where k: "m = Suc k" "height T \<le> k" by (cases m) auto
  with atArray show ?case by simp
next
  case (atNil st)
  show ?case by simp
next
  case (atLeaf st r obj rs ts F)
  then show ?case by simp
next
  case (atNode st r obj c cs F1 rs ts F2)
  then have "readForest m st c = Some cs" "readTasks m st rs = Some ts" by simp_all
  with atNode.hyps show ?case by simp
qed

lemma grows_allocArray:
  "wfStore st \<Longrightarrow> grows st (fst (allocArray st es)) {}"
  by (auto simp: grows_def wfStore_def allocArray_def)

text \<open>
  On a store in which no array of the argument is reached twice, with enough fuel,
  \<open>addTaskAtPositionS\<close> returns, and the forest at the array it returns is the forest
  of \<open>addTaskAtPosition\<close>. The statement is for a new task without \<open>children\<close>.
\<close>

theorem addTaskAtPositionS_refines:
  assumes wf: "wfStore st" and rep: "forestAt st tasksRef T F"
    and n: "objects st n = Some nt" "childrenRef nt = None"
    and fuel: "fuelFor T \<le> fuel"
    and m: "height (addTaskAtPosition T (Task (props nt) None) p X) < m"
  shows "returnedForest m (addTaskAtPositionS fuel st tasksRef n p X)
           = Some (addTaskAtPosition T (Task (props nt) None) p X)"
proof -
  from rep obtain es F0 where
    r: "arrays st tasksRef = Some es" "tasksAt st es T F0" "F = insert tasksRef F0"
    by (rule forestAt_E)
  define k where "k = nextAddr st"
  define st1 where "st1 = fst (allocArray st es)"
  have sel: "objects st1 = objects st" "arrays st1 = (arrays st)(k \<mapsto> es)"
    "nextAddr st1 = Suc k"
    by (simp_all add: st1_def allocArray_def k_def)
  have alloc: "allocArray st es = (st1, k)"
    by (simp add: st1_def allocArray_def k_def)
  have g: "grows st st1 {}" unfolding st1_def using wf by (rule grows_allocArray)
  then have wf1: "wfStore st1" by (simp add: grows_def)
  have "F0 \<inter> {} = {}" by simp
  with r(2) wf g have rep1: "tasksAt st1 es T F0" by (rule rep_frame(2))
  have n1: "objects st1 n = Some nt" using n(1) by (simp add: sel)
  have arr1: "arrays st1 k = Some ([] @ es)" by (simp add: sel)
  have F0b: "F0 \<subseteq> {..<k}" using r(2) wf unfolding k_def by (rule rep_bound(2))
  then have kF0: "k \<notin> F0" by auto
  from insertTaskS_refines[OF wf1 n1 n(2) rep1 arr1 kF0 fuel, of p X]
  obtain st' todo' F' where
    run: "insertTaskS fuel st1 n p X k 0 = Some st'"
    and arrs: "arrays st' k = Some todo'"
    and reps: "tasksAt st' todo' (insertTask (Task (props nt) None) p X T) F'"
    and sub: "F' \<subseteq> F0 \<union> {nextAddr st1 ..< nextAddr st'}"
    by auto
  have "k \<notin> F'" using sub kF0 by (auto simp: sel)
  with arrs reps have
    "forestAt st' k (insertTask (Task (props nt) None) p X T) (insert k F')"
    by (rule forestAt_tasksAt.atArray)
  moreover have "height (insertTask (Task (props nt) None) p X T) < m"
    using m by (simp add: addTaskAtPosition_def)
  ultimately have "readForest m st' k = Some (insertTask (Task (props nt) None) p X T)"
    by (rule rep_read(1))
  moreover have "addTaskAtPositionS fuel st tasksRef n p X = Some (st', k)"
    using r(1) alloc run by (simp add: addTaskAtPositionS_def)
  ultimately show ?thesis by (simp add: returnedForest_def addTaskAtPosition_def)
qed

text \<open>
  The store of the initial state is one without shared arrays, so the statement above
  applies to it.
\<close>

lemma wfStore_storeWithNewTask: "wfStore storeWithNewTask"
  by (auto simp: wfStore_def storeWithNewTask_def initialStore_def allocObject_def)

lemma leaf_rep:
  "objects st r = Some \<lparr>props = attrs t, childrenRef = None\<rparr> \<Longrightarrow> children t = None
   \<Longrightarrow> tasksAt st rs ts F \<Longrightarrow> tasksAt st (r # rs) (t # ts) F"
  using forestAt_tasksAt.atLeaf[of st r "\<lparr>props = attrs t, childrenRef = None\<rparr>" rs ts F]
  by (cases t) simp

lemma node_rep:
  "objects st r = Some \<lparr>props = attrs t, childrenRef = Some c\<rparr> \<Longrightarrow> children t = Some cs
   \<Longrightarrow> forestAt st c cs F1 \<Longrightarrow> tasksAt st rs ts F2 \<Longrightarrow> F1 \<inter> F2 = {}
   \<Longrightarrow> tasksAt st (r # rs) (t # ts) (F1 \<union> F2)"
  using forestAt_tasksAt.atNode[of st r "\<lparr>props = attrs t, childrenRef = Some c\<rparr>" c cs F1 rs ts F2]
  by (cases t) simp

lemma storeWithNewTask_unshared:
  "forestAt storeWithNewTask 10 (tasks initialState) {10, 11, 12}"
proof -
  let ?st = storeWithNewTask
  have o: "objects ?st 1 = Some \<lparr>props = attrs task1, childrenRef = Some 11\<rparr>"
    "objects ?st 2 = Some \<lparr>props = attrs task2, childrenRef = None\<rparr>"
    "objects ?st 3 = Some \<lparr>props = attrs task3, childrenRef = None\<rparr>"
    "objects ?st 4 = Some \<lparr>props = attrs task4, childrenRef = None\<rparr>"
    "objects ?st 5 = Some \<lparr>props = attrs task5, childrenRef = None\<rparr>"
    "objects ?st 6 = Some \<lparr>props = attrs task6, childrenRef = Some 12\<rparr>"
    "objects ?st 7 = Some \<lparr>props = attrs task7, childrenRef = None\<rparr>"
    "objects ?st 8 = Some \<lparr>props = attrs task8, childrenRef = None\<rparr>"
    by (simp_all add: storeWithNewTask_def initialStore_def allocObject_def)
  have ar: "arrays ?st 10 = Some [1, 5, 6]" "arrays ?st 11 = Some [2, 3, 4]"
    "arrays ?st 12 = Some [7, 8]"
    by (simp_all add: storeWithNewTask_def initialStore_def allocObject_def)
  have ch: "children task1 = Some [task2, task3, task4]" "children task2 = None"
    "children task3 = None" "children task4 = None" "children task5 = None"
    "children task6 = Some [task7, task8]" "children task7 = None" "children task8 = None"
    by (simp_all add: task_defs)
  have "tasksAt ?st [2, 3, 4] [task2, task3, task4] {}"
    by (intro leaf_rep o ch forestAt_tasksAt.atNil)
  with ar(2) have c1: "forestAt ?st 11 [task2, task3, task4] (insert 11 {})"
    by (rule forestAt_tasksAt.atArray) simp
  have "tasksAt ?st [7, 8] [task7, task8] {}"
    by (intro leaf_rep o ch forestAt_tasksAt.atNil)
  with ar(3) have c6: "forestAt ?st 12 [task7, task8] (insert 12 {})"
    by (rule forestAt_tasksAt.atArray) simp
  have r6: "tasksAt ?st [6] [task6] (insert 12 {} \<union> {})"
    using o(6) ch(6) c6 forestAt_tasksAt.atNil by (rule node_rep) simp
  have "tasksAt ?st [5, 6] [task5, task6] (insert 12 {} \<union> {})"
    by (rule leaf_rep[OF o(5) ch(5) r6])
  with o(1) ch(1) c1 have
    "tasksAt ?st [1, 5, 6] [task1, task5, task6] (insert 11 {} \<union> (insert 12 {} \<union> {}))"
    by (rule node_rep) simp
  with ar(1) have
    "forestAt ?st 10 [task1, task5, task6] (insert 10 (insert 11 {} \<union> (insert 12 {} \<union> {})))"
    by (rule forestAt_tasksAt.atArray) simp
  then show ?thesis by (simp add: initialState_def insert_commute)
qed

lemma refinement_at_initial_store:
  "returnedForest 3 (addTaskAtPositionS 20 storeWithNewTask 10 13 Above ''3'')
     = Some (addTaskAtPosition (tasks initialState) newTaskA Above ''3'')"
proof -
  have n: "objects storeWithNewTask 13 = Some \<lparr>props = attrs newTaskA, childrenRef = None\<rparr>"
    by (simp add: storeWithNewTask_def initialStore_def allocObject_def)
  have nt: "Task (props \<lparr>props = attrs newTaskA, childrenRef = None\<rparr>) None = newTaskA"
    by (simp add: newTaskA_def)
  have f: "fuelFor (tasks initialState) \<le> 20"
    by (simp add: initialState_def task_defs)
  have h: "height (addTaskAtPosition (tasks initialState) newTaskA Above ''3'') < 3"
    by (simp add: addTaskAtPosition_def initialState_def task_defs newTaskA_def)
  have c: "childrenRef \<lparr>props = attrs newTaskA, childrenRef = None\<rparr> = None"
    by simp
  from addTaskAtPositionS_refines[OF wfStore_storeWithNewTask storeWithNewTask_unshared n c f,
      where m = 3 and p = Above and X = "''3''"] nt h
  show ?thesis by simp
qed

section \<open>Properties of the reducer, the tree helpers and the sessions\<close>

text \<open>
  C1, as the code has it: \<open>MOVE_TASK_TO_PARENT\<close> is declared in \<open>GanttAction\<close>, but
  the reducer's \<open>switch\<close> has no case for it, so the action falls to \<open>default\<close> and the
  reducer returns the state it was given: no task is moved.
\<close>

theorem move_task_to_parent_unhandled:
  "ganttReducer state (MOVE_TASK_TO_PARENT taskId newParentId newIndex) = State state"
  by simp

text \<open>
  C1 as stated fails: moving task 2 to the root at index 0 in the initial state returns
  the initial state, where the root list is still tasks 1, 5, 6 and task 2 is still the
  first child of task 1.
\<close>

theorem move_task_to_parent_counterexample:
  "ganttReducer initialState (MOVE_TASK_TO_PARENT ''2'' None 0) = State initialState
   \<and> tasks initialState = [task1, task5, task6]
   \<and> children task1 = Some [task2, task3, task4]
   \<and> id' (attrs task1) = ''1'' \<and> id' (attrs task2) = ''2''"
  by (simp add: initialState_def task1_def task2_def)

text \<open>
  C2 does not hold of the code: \<open>deleteTaskRecursively\<close> and \<open>addTaskAtPosition\<close> write
  to the argument forest. In the store that holds the initial forest in the array at
  address 10, deleting task 3 returns a new array holding the forest without task 3,
  and afterwards the argument array itself holds a forest in which task 1 has lost
  task 3; inserting a new task above task 3 returns the forest with the new task, and
  afterwards the argument array holds a forest in which task 1 has the new task among
  its children. In both cases the returned forest is the one of the value model.
\<close>

theorem tree_helpers_mutate_argument:
  "readForest 3 initialStore 10 = Some (tasks initialState)
   \<and> (case deleteTaskRecursivelyS 3 initialStore 10 ''3'' of
        None \<Rightarrow> False
      | Some (st, returned) \<Rightarrow>
          readForest 3 st returned = Some (deleteTaskRecursively (tasks initialState) ''3'')
          \<and> readForest 3 st 10 = Some [Task (attrs task1) (Some [task2, task4]), task5, task6])
   \<and> (case addTaskAtPositionS 20 storeWithNewTask 10 13 Above ''3'' of
        None \<Rightarrow> False
      | Some (st, returned) \<Rightarrow>
          readForest 3 st returned
            = Some (addTaskAtPosition (tasks initialState) newTaskA Above ''3'')
          \<and> readForest 3 st 10
            = Some [Task (attrs task1) (Some [task2, newTaskA, task3, task4]), task5, task6])"
  by code_simp

text \<open>
  C3 does not hold of the code: a drag of a resize handle dispatches no \<open>RESIZE_TASK\<close>.
  For the task from day 10 to day 12, pressing the end handle of the row as mounted
  registers the \<open>handleResizeMouseMove\<close> whose closure has \<open>isResizing\<close> false and
  \<open>resizeHandle\<close> null; the move by 5 days to the left runs that listener, which
  returns at its guard, so nothing is dispatched and the task stays as it was. Had
  the guard been passed (\<open>isResizing\<close> true, handle \<open>end\<close>), the same call computes
  day 10 to day 11, the pair that the scenario names.
\<close>

theorem resize_drag_dispatches_nothing:
  "mouseMoveListener (fst (handleResizeStart mountRow day10to12 End)) = Some (False, None)
   \<and> originalTask (fst (handleResizeStart mountRow day10to12 End)) = Some day10to12
   \<and> mouseMove (fst (handleResizeStart mountRow day10to12 End)) ''5'' (- 5) = None
   \<and> handleResizeMouseMove True (Some End) (Some day10to12) ''5'' (- 5)
       = Some (RESIZE_TASK ''5'' 10 11)"
  by (simp add: handleResizeStart_def mountRow_def mouseMove_def handleResizeMouseMove_def
        day10to12_def addDays_def)

text \<open>
  C4, as the code has it: for every pair of calendar dates the duration is the
  whole-day difference plus 1; it is at least 1 when the start is not after the end,
  and it is 1 for a same-day task.
\<close>

theorem duration_law:
  "calculateTaskDuration start finish = (finish - start) + 1
   \<and> (start \<le> finish \<longrightarrow> 1 \<le> calculateTaskDuration start finish)
   \<and> calculateTaskDuration start start = 1"
  by (simp add: calculateTaskDuration_def differenceInDays_def)

text \<open>From 15 July 2025 to 22 July 2025 the duration is 8.\<close>

theorem duration_law_witness:
  "(20284::int) \<le> 20291 \<and> calculateTaskDuration 20284 20291 = 8
   \<and> 1 \<le> calculateTaskDuration 20284 20291"
  using duration_law[of 20284 20291] by simp

text \<open>
  C4 as stated fails for a start after the end: from 22 July 2025 back to 15 July 2025
  the duration is \<open>- 6\<close>, which is not at least 1.
\<close>

theorem duration_counterexample:
  "calculateTaskDuration 20291 20284 = - 6 \<and> \<not> 1 \<le> calculateTaskDuration 20291 20284"
  by (simp add: calculateTaskDuration_def differenceInDays_def)

text \<open>
  C5, as the code has it: when \<open>X\<close> is the id of a node \<open>x\<close> of the forest and of no
  other node, deleting \<open>X\<close> takes the subtree of \<open>x\<close>, which is one block of the
  traversal, out of the forest and keeps every node before and after it with its
  properties; the number of nodes goes down by the size of that subtree, and no node
  with the id is left. The reducer's \<open>DELETE_TASK\<close> does this to the root list.
\<close>

theorem delete_subtree:
  assumes "findTaskById T X = Some x" and "count_list (taskIds T) X = 1"
  shows "(\<exists>before after.
            taskAttrs T = before @ taskAttrs [x] @ after
            \<and> taskAttrs (deleteTaskRecursively T X) = before @ after)
       \<and> nodeCount (deleteTaskRecursively T X) = nodeCount T - nodeCount [x]
       \<and> nodeCount [x] \<le> nodeCount T
       \<and> X \<notin> set (taskIds (deleteTaskRecursively T X))
       \<and> ganttReducer (state\<lparr>tasks := T\<rparr>) (DELETE_TASK X)
           = State (state\<lparr>tasks := deleteTaskRecursively T X\<rparr>)"
proof -
  from delete_block[OF assms] obtain before after where
    b: "taskAttrs T = before @ taskAttrs [x] @ after"
       "taskAttrs (deleteTaskRecursively T X) = before @ after"
    by blast
  then have "nodeCount (deleteTaskRecursively T X) = nodeCount T - nodeCount [x]"
    "nodeCount [x] \<le> nodeCount T"
    by (simp_all add: nodeCount_attrs)
  with b show ?thesis by (auto simp: delete_removes_id)
qed

text \<open>Deleting task 1 of the initial forest: 8 nodes, 4 of them in the subtree of task 1.\<close>

theorem delete_subtree_witness:
  "findTaskById (tasks initialState) ''1'' = Some task1
   \<and> count_list (taskIds (tasks initialState)) ''1'' = 1
   \<and> nodeCount (deleteTaskRecursively (tasks initialState) ''1'')
       = nodeCount (tasks initialState) - nodeCount [task1]
   \<and> nodeCount (tasks initialState) = 8 \<and> nodeCount [task1] = 4
   \<and> deleteTaskRecursively (tasks initialState) ''1'' = [task5, task6]"
proof -
  have f: "findTaskById (tasks initialState) ''1'' = Some task1"
    by (simp add: initialState_def task1_def)
  have c: "count_list (taskIds (tasks initialState)) ''1'' = 1"
    by (simp add: initialState_def task_defs)
  have n: "nodeCount (tasks initialState) = 8" "nodeCount [task1] = 4"
    "deleteTaskRecursively (tasks initialState) ''1'' = [task5, task6]"
    by (simp_all add: initialState_def task_defs)
  from delete_subtree[OF f c] f c n show ?thesis by simp
qed

text \<open>
  C5 as stated fails when more than one node has the id: in the forest after Duplicate
  Task on task 1, which has 12 nodes and task 3 in the children of task 1 and of its
  copy, deleting the id of task 3, whose subtree has 1 node, leaves 10 nodes. The
  helper on the store returns the same forest.
\<close>

theorem delete_subtree_counterexample:
  "findTaskById duplicatedTasks ''3'' = Some task3
   \<and> nodeCount duplicatedTasks = 12
   \<and> nodeCount [task3] = 1
   \<and> nodeCount (deleteTaskRecursively duplicatedTasks ''3'') = 10
   \<and> nodeCount (deleteTaskRecursively duplicatedTasks ''3'')
       \<noteq> nodeCount duplicatedTasks - nodeCount [task3]
   \<and> readForest 3 duplicatedStore 13 = Some duplicatedTasks
   \<and> returnedForest 3 (deleteTaskRecursivelyS 3 duplicatedStore 13 ''3'')
       = Some (deleteTaskRecursively duplicatedTasks ''3'')"
  by code_simp

text \<open>
  C6: for an id that no node of the forest has, updating with any partial payload and
  deleting return the forest itself, and the reducer's \<open>UPDATE_TASK\<close>, \<open>DELETE_TASK\<close> and
  \<open>TOGGLE_TASK_EXPANSION\<close> return the state itself; the result is a state in each case,
  nothing is signalled.
\<close>

theorem identity_on_miss:
  assumes "X \<notin> set (taskIds T)"
  shows "updateTaskRecursively T X updates = T
       \<and> deleteTaskRecursively T X = T
       \<and> ganttReducer (state\<lparr>tasks := T\<rparr>) (UPDATE_TASK X updates) = State (state\<lparr>tasks := T\<rparr>)
       \<and> ganttReducer (state\<lparr>tasks := T\<rparr>) (DELETE_TASK X) = State (state\<lparr>tasks := T\<rparr>)
       \<and> ganttReducer (state\<lparr>tasks := T\<rparr>) (TOGGLE_TASK_EXPANSION X)
           = State (state\<lparr>tasks := T\<rparr>)"
  using assms by (simp add: update_miss delete_miss)

text \<open>The id 99 is not in the initial forest.\<close>

theorem identity_on_miss_witness:
  "''99'' \<notin> set (taskIds (tasks initialState))
   \<and> updateTaskRecursively (tasks initialState) ''99'' (noUpdates\<lparr>u_progress := Some 100\<rparr>)
       = tasks initialState
   \<and> deleteTaskRecursively (tasks initialState) ''99'' = tasks initialState
   \<and> ganttReducer initialState (TOGGLE_TASK_EXPANSION ''99'') = State initialState"
proof -
  have h: "''99'' \<notin> set (taskIds (tasks initialState))"
    by (simp add: initialState_def task_defs)
  from identity_on_miss[OF h, of "noUpdates\<lparr>u_progress := Some 100\<rparr>" initialState] h
  show ?thesis by simp
qed







text \<open>
  C9: \<open>START_RESIZE\<close> sets \<open>isResizing\<close>, \<open>resizeHandle\<close> and \<open>selectedTaskId\<close> and
  nothing else; \<open>END_RESIZE\<close> sets \<open>isResizing\<close> and \<open>resizeHandle\<close> and nothing else, so
  the task selected by the start of a resize is still selected after its end.
\<close>

theorem start_resize_selects:
  "ganttReducer state (START_RESIZE taskId handle)
     = State (state\<lparr>isResizing := True, resizeHandle := Some handle,
                   selectedTaskId := Some taskId\<rparr>)
   \<and> ganttReducer state END_RESIZE
     = State (state\<lparr>isResizing := False, resizeHandle := None\<rparr>)
   \<and> ganttReducer (state\<lparr>isResizing := True, resizeHandle := Some handle,
                        selectedTaskId := Some taskId\<rparr>) END_RESIZE
     = State (state\<lparr>isResizing := False, resizeHandle := None,
                   selectedTaskId := Some taskId\<rparr>)"
  by simp

text \<open>
  C10, as the code has it: \<open>REORDER_TASKS\<close> checks no bound. When \<open>sourceIndex\<close> is at
  least the length of the root list (or the list is empty), the first splice removes
  nothing and an undefined entry is inserted at the place that splice gives
  \<open>destinationIndex\<close>: the array is longer by 1 and holds an entry that is not a task.
  A \<open>sourceIndex\<close> below minus the length of a non-empty list is not such a case:
  splice counts it from the end and stops at 0, so the first task is removed and
  inserted again, and the array keeps its length and holds tasks only.
\<close>

theorem reorder_source_out_of_range:
  "(int (length T) \<le> sourceIndex \<or> T = [] \<longrightarrow>
      reorderTasks T sourceIndex destinationIndex
        = take (spliceStart (length T) destinationIndex) (map Some T) @ None
            # drop (spliceStart (length T) destinationIndex) (map Some T)
      \<and> length (reorderTasks T sourceIndex destinationIndex) = length T + 1
      \<and> None \<in> set (reorderTasks T sourceIndex destinationIndex)
      \<and> ganttReducer (state\<lparr>tasks := T\<rparr>) (REORDER_TASKS sourceIndex destinationIndex)
          = StateWithUndefined (state\<lparr>tasks := T\<rparr>)
              (reorderTasks T sourceIndex destinationIndex))
   \<and> (sourceIndex < - int (length T) \<and> T \<noteq> [] \<longrightarrow>
      reorderTasks T sourceIndex destinationIndex
        = map Some (take (spliceStart (length (tl T)) destinationIndex) (tl T) @ hd T
            # drop (spliceStart (length (tl T)) destinationIndex) (tl T))
      \<and> length (reorderTasks T sourceIndex destinationIndex) = length T
      \<and> None \<notin> set (reorderTasks T sourceIndex destinationIndex))"
proof (intro conjI impI)
  assume a: "int (length T) \<le> sourceIndex \<or> T = []"
  let ?k = "spliceStart (length T) destinationIndex"
  show r: "reorderTasks T sourceIndex destinationIndex
      = take ?k (map Some T) @ None # drop ?k (map Some T)"
    using a by (rule reorder_nothing_removed)
  show "length (reorderTasks T sourceIndex destinationIndex) = length T + 1"
    unfolding r using spliceStart_le[of "length T" destinationIndex] by simp
  show n: "None \<in> set (reorderTasks T sourceIndex destinationIndex)"
    unfolding r by simp
  show "ganttReducer (state\<lparr>tasks := T\<rparr>) (REORDER_TASKS sourceIndex destinationIndex)
          = StateWithUndefined (state\<lparr>tasks := T\<rparr>)
              (reorderTasks T sourceIndex destinationIndex)"
    using allTasks_None[OF n] by simp
next
  assume b: "sourceIndex < - int (length T) \<and> T \<noteq> []"
  then obtain t rest where T: "T = t # rest" by (cases T) auto
  let ?k = "spliceStart (length rest) destinationIndex"
  have r: "reorderTasks T sourceIndex destinationIndex
      = map Some (take ?k rest @ t # drop ?k rest)"
    using b unfolding T by (intro reorder_first_removed) simp
  then show "reorderTasks T sourceIndex destinationIndex
        = map Some (take (spliceStart (length (tl T)) destinationIndex) (tl T) @ hd T
            # drop (spliceStart (length (tl T)) destinationIndex) (tl T))"
    by (simp add: T)
  show "length (reorderTasks T sourceIndex destinationIndex) = length T"
    unfolding r using spliceStart_le[of "length rest" destinationIndex] by (simp add: T)
  show "None \<notin> set (reorderTasks T sourceIndex destinationIndex)"
    unfolding r by auto
qed

text \<open>
  The initial root list has 3 tasks: a source index of 3 gives 4 entries, one of them
  undefined; a source index of \<open>- 5\<close> gives 3 entries, all of them tasks.
\<close>

theorem reorder_source_out_of_range_witness:
  "(int (length (tasks initialState)) \<le> 3 \<or> tasks initialState = [])
   \<and> length (reorderTasks (tasks initialState) 3 1) = length (tasks initialState) + 1
   \<and> None \<in> set (reorderTasks (tasks initialState) 3 1)
   \<and> (- 5 < - int (length (tasks initialState)) \<and> tasks initialState \<noteq> [])
   \<and> length (reorderTasks (tasks initialState) (- 5) 2) = length (tasks initialState)
   \<and> None \<notin> set (reorderTasks (tasks initialState) (- 5) 2)"
proof -
  have t: "tasks initialState = [task1, task5, task6]"
    by (simp add: initialState_def)
  have h1: "int (length (tasks initialState)) \<le> 3 \<or> tasks initialState = []"
    and h2: "- 5 < - int (length (tasks initialState)) \<and> tasks initialState \<noteq> []"
    by (simp_all add: t)
  note above = reorder_source_out_of_range[of "tasks initialState" 3 1 initialState,
    THEN conjunct1, rule_format, OF h1]
  note below = reorder_source_out_of_range[of "tasks initialState" "- 5" 2 initialState,
    THEN conjunct2, rule_format, OF h2]
  from h1 h2 above[THEN conjunct2, THEN conjunct1]
    above[THEN conjunct2, THEN conjunct2, THEN conjunct1]
    below[THEN conjunct2, THEN conjunct1] below[THEN conjunct2, THEN conjunct2]
  show ?thesis by simp
qed

text \<open>
  C10 as stated fails for a source index below minus the length: with the 3 initial
  root tasks and a source index of \<open>- 5\<close> the first splice removes task 1, and the
  result has 3 entries, not 4, and no undefined entry.
\<close>

theorem reorder_counterexample:
  "- 5 < - int (length (tasks initialState))
   \<and> reorderTasks (tasks initialState) (- 5) 2 = [Some task5, Some task6, Some task1]
   \<and> length (reorderTasks (tasks initialState) (- 5) 2) \<noteq> length (tasks initialState) + 1
   \<and> None \<notin> set (reorderTasks (tasks initialState) (- 5) 2)
   \<and> ganttReducer initialState (REORDER_TASKS (- 5) 2)
       = State (initialState\<lparr>tasks := [task5, task6, task1]\<rparr>)"
proof -
  have t: "tasks initialState = [task1, task5, task6]"
    by (simp add: initialState_def)
  have r: "reorderTasks [task1, task5, task6] (- 5) 2 = [Some task5, Some task6, Some task1]"
    using reorder_first_removed[of "- 5" task1 "[task5, task6]" 2]
    by (simp add: spliceStart_def)
  have "ganttReducer initialState (REORDER_TASKS (- 5) 2)
       = State (initialState\<lparr>tasks := [task5, task6, task1]\<rparr>)"
    by (simp add: t r)
  then show ?thesis by (simp add: t r)
qed

end
